theory Spec2Isabelle
  imports Complex_Main "HOL-Library.Sublist" "HOL-Library.Multiset"
begin

section \<open>Semantic-change measurement: a model of calculate\_semantic\_change.py\<close>

text \<open>
  Conventions of the model.
  \<^item> A Python float is a real number. A computation whose float result would be
    \<open>nan\<close> or \<open>\<plusminus>inf\<close> (a division of a non-empty array by a zero sum, the
    \<open>inf\<close> of \<open>rel_entr\<close>) has no real value; it ends in \<open>Inl NonFinite\<close>.
    NumPy only warns there and carries the \<open>nan\<close> on, so \<open>NonFinite\<close> is the
    one outcome below that is not a Python exception.
  \<^item> \<open>Inl Unmodelled\<close> marks inputs the model does not describe (a target word
    with a regular-expression metacharacter other than the dot, NumPy broadcasting of
    a length-1 array, ragged embedding lists, a dangling array reference).
  \<^item> Every other \<open>Inl\<close> is the exception the source raises at that point.
  \<^item> \<open>print\<close> calls are left out, except in \<open>compute_mean_dist\<close>, whose only
    output is what it prints.
\<close>

subsection \<open>Outcomes\<close>

datatype error = ValueError | IndexError | TypeError | NonFinite | Unmodelled

definition and_then :: "error + 'a \<Rightarrow> ('a \<Rightarrow> error + 'b) \<Rightarrow> error + 'b" where
  "and_then r f = (case r of Inl e \<Rightarrow> Inl e | Inr v \<Rightarrow> f v)"

fun collect :: "(error + 'a) list \<Rightarrow> error + 'a list" where
  "collect [] = Inr []"
| "collect (r # rs) = and_then r (\<lambda>v. and_then (collect rs) (\<lambda>vs. Inr (v # vs)))"

subsection \<open>NumPy and SciPy primitives\<close>

text \<open>\<open>xs / s\<close> for an array and a scalar: each element is divided; with \<open>s = 0\<close>
  every element of a non-empty array becomes \<open>nan\<close> or \<open>\<plusminus>inf\<close>, and an empty
  array stays empty.\<close>

definition np_div_scalar :: "real list \<Rightarrow> real \<Rightarrow> error + real list" where
  "np_div_scalar xs s =
     (if s = 0 \<and> xs \<noteq> [] then Inl NonFinite else Inr (map (\<lambda>x. x / s) xs))"

text \<open>\<open>p + q\<close> on one-dimensional arrays: equal shapes add elementwise, a
  length-1 operand would be broadcast (not modelled), other shapes raise.\<close>

definition np_add :: "real list \<Rightarrow> real list \<Rightarrow> error + real list" where
  "np_add p q =
     (if length p = length q then Inr (map2 (+) p q)
      else if length p = 1 \<or> length q = 1 then Inl Unmodelled
      else Inl ValueError)"

text \<open>\<open>scipy.special.rel_entr\<close>: \<open>x log (x / y)\<close> for positive \<open>x\<close>, \<open>y\<close>;
  \<open>0\<close> for \<open>x = 0\<close>, \<open>y \<ge> 0\<close>; \<open>inf\<close> otherwise.\<close>

definition rel_entr :: "real \<Rightarrow> real \<Rightarrow> error + real" where
  "rel_entr x y =
     (if 0 < x \<and> 0 < y then Inr (x * ln (x / y))
      else if x = 0 \<and> 0 \<le> y then Inr 0
      else Inl NonFinite)"

text \<open>\<open>scipy.stats.entropy(pk, qk)\<close>: both arguments are normalised to sum 1,
  then the relative entropies are summed.\<close>

definition entropy :: "real list \<Rightarrow> real list \<Rightarrow> error + real" where
  "entropy pk qk =
     and_then (np_div_scalar pk (sum_list pk)) (\<lambda>pk'.
       if length qk \<noteq> length pk' then
         (if length qk = 1 \<or> length pk' = 1 then Inl Unmodelled else Inl ValueError)
       else
         and_then (np_div_scalar qk (sum_list qk)) (\<lambda>qk'.
         and_then (collect (map2 rel_entr pk' qk')) (\<lambda>vec.
         Inr (sum_list vec))))"

subsection \<open>Arrays as objects: the store\<close>

text \<open>A NumPy array is a cell of the heap, named by its index; it holds 64-bit
  integers or floats. An argument of \<open>compute_jsd\<close> is either a reference to such an
  array or a Python list of numbers. \<open>np.asarray\<close> returns the very same array for
  the former and builds a fresh one for the latter: an integer array when the list is
  not empty and holds integers only, a float array otherwise.\<close>

datatype ndarray = Int64 "int list" | Float64 "real list"

type_synonym heap = "ndarray list"

datatype number = IntNum int | FloatNum real

datatype array_like = NdArray nat | PyList "number list"

fun is_int :: "number \<Rightarrow> bool" where
  "is_int (IntNum i) \<longleftrightarrow> True"
| "is_int (FloatNum x) \<longleftrightarrow> False"

fun to_int :: "number \<Rightarrow> int" where
  "to_int (IntNum i) = i"
| "to_int (FloatNum x) = \<lfloor>x\<rfloor>"

fun to_float :: "number \<Rightarrow> real" where
  "to_float (IntNum i) = of_int i"
| "to_float (FloatNum x) = x"

definition asarray_list :: "number list \<Rightarrow> ndarray" where
  "asarray_list xs =
     (if xs \<noteq> [] \<and> list_all is_int xs then Int64 (map to_int xs)
      else Float64 (map to_float xs))"

fun entries :: "ndarray \<Rightarrow> real list" where
  "entries (Int64 xs) = map of_int xs"
| "entries (Float64 xs) = xs"

fun valid_arg :: "heap \<Rightarrow> array_like \<Rightarrow> bool" where
  "valid_arg h (NdArray a) \<longleftrightarrow> a < length h"
| "valid_arg h (PyList xs) \<longleftrightarrow> True"

fun np_asarray :: "heap \<Rightarrow> array_like \<Rightarrow> heap \<times> nat" where
  "np_asarray h (NdArray a) = (h, a)"
| "np_asarray h (PyList xs) = (h @ [asarray_list xs], length h)"

text \<open>\<open>p /= p.sum()\<close>: the division is written back into the array \<open>p\<close> names. The
  quotient is a float, which NumPy refuses to write into an integer array: it raises
  \<open>UFuncTypeError\<close>, a \<open>TypeError\<close>.\<close>

definition idiv_sum :: "heap \<Rightarrow> nat \<Rightarrow> error + heap" where
  "idiv_sum h a =
     (case h ! a of
        Int64 xs \<Rightarrow> Inl TypeError
      | Float64 xs \<Rightarrow>
          and_then (np_div_scalar xs (sum_list xs)) (\<lambda>ys. Inr (h[a := Float64 ys])))"

subsection \<open>compute\_jsd\<close>

text \<open>The caller can only pass arrays that exist: a reference outside the
  caller's heap is not a Python value.\<close>

definition compute_jsd :: "heap \<Rightarrow> array_like \<Rightarrow> array_like \<Rightarrow> error + (heap \<times> real)" where
  "compute_jsd h0 p_arg q_arg =
     (if \<not> (valid_arg h0 p_arg \<and> valid_arg h0 q_arg) then Inl Unmodelled
      else
        let (h1, p) = np_asarray h0 p_arg;
            (h2, q) = np_asarray h1 q_arg
        in and_then (idiv_sum h2 p) (\<lambda>h3.
           and_then (idiv_sum h3 q) (\<lambda>h4.
           and_then (np_add (entries (h4 ! p)) (entries (h4 ! q))) (\<lambda>s.
           and_then (np_div_scalar s 2) (\<lambda>m.
           and_then (entropy (entries (h4 ! p)) m) (\<lambda>e1.
           and_then (entropy (entries (h4 ! q)) m) (\<lambda>e2.
           Inr (h4, (e1 + e2) / 2))))))))"

subsection \<open>compute\_divergence\_from\_cluster\_labels\<close>

text \<open>\<open>Counter(labels)[i]\<close> is \<open>count_list labels i\<close>. \<open>t1 / t1.sum()\<close> builds
  new float arrays, which are then handed to \<open>compute_jsd\<close>: the two cells of the
  local heap. \<open>divergence_over\<close> is the body of the function after \<open>n_senses\<close> has been
  fixed.\<close>

definition divergence_over :: "int list \<Rightarrow> int list \<Rightarrow> int list \<Rightarrow> error + real" where
  "divergence_over n_senses labels1 labels2 =
     (let c1 = map (\<lambda>i. real (count_list labels1 i)) n_senses;
          c2 = map (\<lambda>i. real (count_list labels2 i)) n_senses
      in and_then (np_div_scalar c1 (sum_list c1)) (\<lambda>t1_dist.
         and_then (np_div_scalar c2 (sum_list c2)) (\<lambda>t2_dist.
         and_then (compute_jsd [Float64 t1_dist, Float64 t2_dist] (NdArray 0) (NdArray 1))
           (\<lambda>(h, jsd).
         Inr jsd))))"

text \<open>\<open>list(set(labels_all))\<close> lists each label once, in an order Python does not
  fix; \<open>remdups\<close> is one such order (\<open>divergence_order_irrelevant\<close> below shows
  that the order does not matter).\<close>

definition compute_divergence_from_cluster_labels :: "int list \<Rightarrow> int list \<Rightarrow> error + real" where
  "compute_divergence_from_cluster_labels labels1 labels2 =
     (let labels_all = labels1 @ labels2;
          n_senses = remdups labels_all
      in divergence_over n_senses labels1 labels2)"

subsection \<open>Cosine distances\<close>

type_synonym emb = "real list"

definition dot :: "emb \<Rightarrow> emb \<Rightarrow> real" where
  "dot a b = sum_list (map2 (*) a b)"

text \<open>\<open>sklearn.preprocessing.normalize\<close>: a row is divided by its Euclidean norm, a
  zero norm being replaced by 1.\<close>

definition unit_row :: "emb \<Rightarrow> emb" where
  "unit_row a = (let n = sqrt (dot a a) in map (\<lambda>x. x / (if n = 0 then 1 else n)) a)"

text \<open>\<open>cosine_similarity([a], [b])[0][0]\<close>. The input validation of scikit-learn
  raises \<open>ValueError\<close> for rows without features and for rows of different
  dimension.\<close>

definition cosine_similarity :: "emb \<Rightarrow> emb \<Rightarrow> error + real" where
  "cosine_similarity a b =
     (if a = [] \<or> b = [] \<or> length a \<noteq> length b then Inl ValueError
      else Inr (dot (unit_row a) (unit_row b)))"

text \<open>\<open>np.mean\<close> of a list of floats; \<open>nan\<close> for the empty list.\<close>

definition np_mean :: "real list \<Rightarrow> error + real" where
  "np_mean xs = (if xs = [] then Inl NonFinite else Inr (sum_list xs / real (length xs)))"

text \<open>A value a Python function hands back.\<close>

datatype pyvalue = PyNone | PyFloat real

text \<open>\<open>compute_mean_dist\<close> prints the mean and ends without a \<open>return\<close>
  statement. The result is the pair of the printed number and the returned value.
  Its arguments are two-dimensional arrays, given by their rows.\<close>

definition compute_mean_dist :: "emb list \<Rightarrow> emb list \<Rightarrow> error + (real \<times> pyvalue)" where
  "compute_mean_dist t1_embeddings t2_embeddings =
     and_then
       (collect (map (\<lambda>x.
          and_then
            (collect (map (\<lambda>y. and_then (cosine_similarity x y) (\<lambda>c. Inr (1.0 - c)))
               t2_embeddings))
            np_mean)
          t1_embeddings))
       (\<lambda>mean_overall_list.
     and_then (np_mean mean_overall_list) (\<lambda>mean_overall.
     Inr (mean_overall, PyNone)))"

text \<open>\<open>np.mean(X, axis=0)\<close> of a non-empty two-dimensional array: the mean of each
  column.\<close>

definition np_mean_axis0 :: "emb list \<Rightarrow> emb" where
  "np_mean_axis0 X =
     map (\<lambda>j. sum_list (map (\<lambda>x. x ! j) X) / real (length X)) [0..<length (hd X)]"

text \<open>\<open>np.array([])\<close> has shape \<open>(0,)\<close>; its \<open>np.mean(axis=0)\<close> is the scalar
  \<open>nan\<close>, and \<open>cosine_similarity\<close> rejects the one-dimensional \<open>[nan]\<close> with
  \<open>ValueError\<close>.\<close>

definition compute_averaged_embedding_dist :: "emb list \<Rightarrow> emb list \<Rightarrow> error + real" where
  "compute_averaged_embedding_dist t1_embeddings t2_embeddings =
     (if t1_embeddings = [] \<or> t2_embeddings = [] then Inl ValueError
      else
        let t1_mean = np_mean_axis0 t1_embeddings;
            t2_mean = np_mean_axis0 t2_embeddings
        in and_then (cosine_similarity t1_mean t2_mean) (\<lambda>c. Inr (1.0 - c)))"

subsection \<open>Libraries taken as parameters\<close>

text \<open>The clustering algorithms of scikit-learn and the character classification of
  Python's \<open>re\<close> module are not part of the repository. \<open>AffinityPropagation pref X\<close>
  stands for \<open>AffinityPropagation(preference=pref).fit(X)\<close> (\<open>None\<close>: the
  constructor's default) and \<open>KMeans k X\<close> for
  \<open>KMeans(n_clusters=k, random_state=0).fit(X)\<close>; each gives \<^verbatim>\<open>labels_\<close> and
  \<^verbatim>\<open>cluster_centers_\<close>, or the exception it raises. \<open>word_char c\<close> tells whether
  \<open>\w\<close> matches the character \<open>c\<close>.\<close>

record libs =
  AffinityPropagation :: "real option \<Rightarrow> emb list \<Rightarrow> error + (int list \<times> emb list)"
  KMeans :: "nat \<Rightarrow> emb list \<Rightarrow> error + (int list \<times> emb list)"
  word_char :: "char \<Rightarrow> bool"

definition cluster_word_embeddings_aff_prop ::
  "libs \<Rightarrow> emb list \<Rightarrow> real option \<Rightarrow> error + (int list \<times> emb list)" where
  "cluster_word_embeddings_aff_prop env word_embeddings preference =
     (case preference of
        Some pref \<Rightarrow> AffinityPropagation env (Some pref) word_embeddings
      | None \<Rightarrow> AffinityPropagation env None word_embeddings)"

definition cluster_word_embeddings_k_means ::
  "libs \<Rightarrow> emb list \<Rightarrow> nat \<Rightarrow> error + (int list \<times> emb list)" where
  "cluster_word_embeddings_k_means env word_embeddings k = KMeans env k word_embeddings"

subsection \<open>The regular expression of a target word\<close>

text \<open>\<open>s.replace(old, "")\<close> for a non-empty \<open>old\<close>: the occurrences of \<open>old\<close> are
  removed from left to right, without overlap.\<close>

function str_remove :: "string \<Rightarrow> string \<Rightarrow> string" where
  "str_remove old [] = []"
| "str_remove old (c # cs) =
     (if old \<noteq> [] \<and> prefix old (c # cs) then str_remove old (drop (length old - 1) cs)
      else c # str_remove old cs)"
  by pat_completeness auto
termination
  by (relation "measure (\<lambda>(old, s). length s)") auto

text \<open>\<open>word.replace("_vb", "").replace("_nn", "")\<close>\<close>

definition strip_pos :: "string \<Rightarrow> string" where
  "strip_pos word = str_remove ''_nn'' (str_remove ''_vb'' word)"

text \<open>The stripped word is pasted into the pattern \<open>\bword\b\<close> unescaped, so a
  character of the word that is special in a pattern acts as an operator. The model
  reads the word as a sequence of atoms, each matching one character: a dot matches
  any character but the newline, a character that is not special matches itself.
  Words with another special character are not modelled.\<close>

datatype atom = Lit char | Dot

definition regex_meta :: "char \<Rightarrow> bool" where
  "regex_meta c \<longleftrightarrow> c \<in> set ''.^$*+?{}[]|()'' \<or> c = CHR 0x5C"

definition compile_char :: "char \<Rightarrow> error + atom" where
  "compile_char c =
     (if c = CHR ''.'' then Inr Dot
      else if regex_meta c then Inl Unmodelled
      else Inr (Lit c))"

definition compile_word :: "string \<Rightarrow> error + atom list" where
  "compile_word w = collect (map compile_char w)"

fun atom_match :: "atom \<Rightarrow> char \<Rightarrow> bool" where
  "atom_match (Lit c) d \<longleftrightarrow> d = c"
| "atom_match Dot d \<longleftrightarrow> d \<noteq> CHR 0x0A"

fun atoms_prefix :: "atom list \<Rightarrow> string \<Rightarrow> bool" where
  "atoms_prefix [] r \<longleftrightarrow> True"
| "atoms_prefix (a # as) [] \<longleftrightarrow> False"
| "atoms_prefix (a # as) (c # cs) \<longleftrightarrow> atom_match a c \<and> atoms_prefix as cs"

text \<open>\<open>\b\<close> between the text \<open>l\<close> read so far and the rest \<open>r\<close>: exactly one of
  the two neighbouring characters is a word character, a missing neighbour counting
  as none.\<close>

definition at_boundary :: "(char \<Rightarrow> bool) \<Rightarrow> string \<Rightarrow> string \<Rightarrow> bool" where
  "at_boundary isw l r \<longleftrightarrow> (l \<noteq> [] \<and> isw (last l)) \<noteq> (r \<noteq> [] \<and> isw (hd r))"

definition match_at :: "(char \<Rightarrow> bool) \<Rightarrow> atom list \<Rightarrow> string \<Rightarrow> string \<Rightarrow> bool" where
  "match_at isw as l r \<longleftrightarrow>
     atoms_prefix as r \<and> at_boundary isw l r
     \<and> at_boundary isw (l @ take (length as) r) (drop (length as) r)"

text \<open>\<open>re.search\<close> tries the start positions from left to right; \<open>l\<close> is the text
  before the position, \<open>r\<close> the text from it on.\<close>

fun search_from :: "(char \<Rightarrow> bool) \<Rightarrow> atom list \<Rightarrow> string \<Rightarrow> string \<Rightarrow> bool" where
  "search_from isw as l [] = match_at isw as l []"
| "search_from isw as l (c # cs) =
     (match_at isw as l (c # cs) \<or> search_from isw as (l @ [c]) cs)"

definition re_search :: "(char \<Rightarrow> bool) \<Rightarrow> atom list \<Rightarrow> string \<Rightarrow> bool" where
  "re_search isw as text = search_from isw as [] text"

subsection \<open>Selecting the occurrences of a word (lines 138-169)\<close>

record word_record =
  t1 :: "emb list"
  t2 :: "emb list"
  t1_text :: "string list"
  t2_text :: "string list"

text \<open>The loop over \<open>idx\<close> for one time slice, on the embeddings and texts still to
  be visited. \<open>emb[ts_text][idx]\<close> raises \<open>IndexError\<close> when the texts run out
  first. The state is \<open>text_seen\<close> (its keys) and the two lists appended to.\<close>

fun slice_loop ::
  "(string \<Rightarrow> bool) \<Rightarrow> bool \<Rightarrow> emb list \<Rightarrow> string list
     \<Rightarrow> string list \<times> emb list \<times> string list \<Rightarrow> error + (string list \<times> emb list \<times> string list)" where
  "slice_loop search oneEmbPerSentence [] txts st = Inr st"
| "slice_loop search oneEmbPerSentence (e # es) [] st = Inl IndexError"
| "slice_loop search oneEmbPerSentence (e # es) (text # txts) (text_seen, embeddings, texts) =
     (if \<not> search text then
        slice_loop search oneEmbPerSentence es txts (text_seen, embeddings, texts)
      else if oneEmbPerSentence \<and> text \<in> set text_seen then
        slice_loop search oneEmbPerSentence es txts (text_seen, embeddings, texts)
      else
        slice_loop search oneEmbPerSentence es txts
          (if oneEmbPerSentence then text # text_seen else text_seen,
           embeddings @ [e], texts @ [text]))"

definition select_occurrences ::
  "libs \<Rightarrow> bool \<Rightarrow> string \<Rightarrow> word_record
     \<Rightarrow> error + ((emb list \<times> string list) \<times> (emb list \<times> string list))" where
  "select_occurrences env oneEmbPerSentence word emb =
     and_then (compile_word (strip_pos word)) (\<lambda>regex.
     and_then (slice_loop (re_search (word_char env) regex) oneEmbPerSentence
                 (t1 emb) (t1_text emb) ([], [], [])) (\<lambda>(seen1, embeddings1, texts1).
     and_then (slice_loop (re_search (word_char env) regex) oneEmbPerSentence
                 (t2 emb) (t2_text emb) ([], [], [])) (\<lambda>(seen2, embeddings2, texts2).
     Inr ((embeddings1, texts1), (embeddings2, texts2)))))"

subsection \<open>The computation for one word (lines 172-198)\<close>

text \<open>\<open>np.array\<close> of a list of vectors is a two-dimensional array when the vectors
  have one length; other lists are not modelled.\<close>

definition np_array :: "emb list \<Rightarrow> error + emb list" where
  "np_array X = (if list_all (\<lambda>x. length x = length (hd X)) X then Inr X else Inl Unmodelled)"

text \<open>\<open>np.concatenate([X, Y], axis=0)\<close>: the rows of \<open>X\<close>, then those of \<open>Y\<close>. An
  empty \<open>X\<close> has shape \<open>(0,)\<close> and does not go with a two-dimensional \<open>Y\<close>.\<close>

definition np_concatenate :: "emb list \<Rightarrow> emb list \<Rightarrow> error + emb list" where
  "np_concatenate X Y =
     (if (X = []) \<noteq> (Y = []) then Inl ValueError
      else if X \<noteq> [] \<and> length (hd X) \<noteq> length (hd Y) then Inl ValueError
      else Inr (X @ Y))"

record strategy_result =
  labels :: "int list"
  clusters1 :: "int list"
  clusters2 :: "int list"
  centroids :: "emb list"
  jsd :: real

text \<open>What follows each clustering call: the labels are cut at
  \<open>embeddings1.shape[0]\<close> and the divergence of the two parts is computed.\<close>

definition split_and_score ::
  "error + (int list \<times> emb list) \<Rightarrow> emb list \<Rightarrow> error + strategy_result" where
  "split_and_score fit embeddings1 =
     and_then fit (\<lambda>(lbls, centers).
       let c1 = take (length embeddings1) lbls;
           c2 = drop (length embeddings1) lbls
       in and_then (compute_divergence_from_cluster_labels c1 c2) (\<lambda>d.
          Inr \<lparr>labels = lbls, clusters1 = c1, clusters2 = c2,
               centroids = centers, jsd = d\<rparr>))"

record word_result =
  texts1 :: "string list"
  texts2 :: "string list"
  embeddings_concat :: "emb list"
  average_dist :: real
  n_senses :: nat
  aff :: strategy_result
  km5 :: strategy_result
  km7 :: strategy_result

definition aff_prop_pref :: real where
  "aff_prop_pref = - 430"

definition analyse_word :: "libs \<Rightarrow> bool \<Rightarrow> string \<Rightarrow> word_record \<Rightarrow> error + word_result" where
  "analyse_word env oneEmbPerSentence word emb =
     and_then (select_occurrences env oneEmbPerSentence word emb) (\<lambda>((e1, x1), (e2, x2)).
     and_then (np_array e1) (\<lambda>embeddings1.
     and_then (np_array e2) (\<lambda>embeddings2.
     and_then (compute_averaged_embedding_dist embeddings1 embeddings2) (\<lambda>average.
     and_then (np_concatenate embeddings1 embeddings2) (\<lambda>pooled.
     and_then (split_and_score (cluster_word_embeddings_aff_prop env pooled None) embeddings1)
       (\<lambda>r_aff.
     and_then (split_and_score (cluster_word_embeddings_k_means env pooled 5) embeddings1)
       (\<lambda>r_km5.
     and_then (split_and_score (cluster_word_embeddings_k_means env pooled 7) embeddings1)
       (\<lambda>r_km7.
     Inr \<lparr>texts1 = x1, texts2 = x2, embeddings_concat = pooled, average_dist = average,
          n_senses = length (remdups (labels r_aff)),
          aff = r_aff, km5 = r_km5, km7 = r_km7\<rparr>))))))))"

subsection \<open>Accumulators and files (lines 120-130, 200-261)\<close>

text \<open>\<open>results_dict\<close> maps each column name to a list; the six lists grow together.\<close>

record results_columns =
  word :: "string list"
  aff_prop :: "real list"
  kmeans_5 :: "real list"
  kmeans_7 :: "real list"
  averaging :: "real list"
  aff_prop_clusters :: "nat list"

text \<open>A row of the data frame, in the order of the columns.\<close>

type_synonym row = "string \<times> real \<times> real \<times> real \<times> real \<times> nat"

definition row_word :: "row \<Rightarrow> string" where
  "row_word r = fst r"

definition row_aff_prop :: "row \<Rightarrow> real" where
  "row_aff_prop r = fst (snd r)"

text \<open>\<open>pd.DataFrame.from_dict\<close> raises \<open>ValueError\<close> for columns of different
  lengths.\<close>

definition DataFrame_from_dict :: "results_columns \<Rightarrow> error + row list" where
  "DataFrame_from_dict d =
     (let n = length (word d) in
      if length (aff_prop d) = n \<and> length (kmeans_5 d) = n \<and> length (kmeans_7 d) = n
         \<and> length (averaging d) = n \<and> length (aff_prop_clusters d) = n
      then Inr (zip (word d) (zip (aff_prop d) (zip (kmeans_5 d) (zip (kmeans_7 d)
                  (zip (averaging d) (aff_prop_clusters d))))))
      else Inl ValueError)"

text \<open>\<open>sort_values(by=['aff_prop'], ascending=False)\<close>. The order pandas gives to
  rows with equal scores is not fixed by its documentation; this sort is one of the
  possible outcomes.\<close>

definition sort_values_desc :: "row list \<Rightarrow> row list" where
  "sort_values_desc rows = sort_key (\<lambda>r. - row_aff_prop r) rows"

text \<open>The contents of the files the script writes: the table, and the pickled
  dictionaries (a word's entry holds the value for \<open>t1\<close> and the value for \<open>t2\<close>).\<close>

datatype file_content =
    Table "row list"
  | Labels "string \<rightharpoonup> int list \<times> int list"
  | Centroids "string \<rightharpoonup> emb list"
  | Sentences "string \<rightharpoonup> string list \<times> string list"

record state =
  results_dict :: results_columns
  sentence_dict :: "string \<rightharpoonup> string list \<times> string list"
  aff_prop_labels_dict :: "string \<rightharpoonup> int list \<times> int list"
  aff_prop_centroids_dict :: "string \<rightharpoonup> emb list"
  kmeans_5_labels_dict :: "string \<rightharpoonup> int list \<times> int list"
  kmeans_5_centroids_dict :: "string \<rightharpoonup> emb list"
  kmeans_7_labels_dict :: "string \<rightharpoonup> int list \<times> int list"
  kmeans_7_centroids_dict :: "string \<rightharpoonup> emb list"
  files :: "string \<rightharpoonup> file_content"

record args =
  language :: string
  one_embedding_per_sentence :: bool
  semeval_results :: string
  embeddings_path :: string

text \<open>The values \<open>argparse\<close> gives to options that are absent from the command
  line.\<close>

definition default_args :: args where
  "default_args =
     \<lparr>language = ''english'', one_embedding_per_sentence = False,
      semeval_results = ''semeval_results/'', embeddings_path = ''embeddings_english.pickle''\<rparr>"

definition initial_state :: "(string \<rightharpoonup> file_content) \<Rightarrow> state" where
  "initial_state fs =
     \<lparr>results_dict = \<lparr>word = [], aff_prop = [], kmeans_5 = [], kmeans_7 = [], averaging = [],
                       aff_prop_clusters = []\<rparr>,
      sentence_dict = Map.empty,
      aff_prop_labels_dict = Map.empty, aff_prop_centroids_dict = Map.empty,
      kmeans_5_labels_dict = Map.empty, kmeans_5_centroids_dict = Map.empty,
      kmeans_7_labels_dict = Map.empty, kmeans_7_centroids_dict = Map.empty,
      files = fs\<rparr>"

text \<open>Lines 178 and 201-215: the entries of the word are stored and one value is
  appended to each column.\<close>

definition record_word :: "state \<Rightarrow> string \<Rightarrow> word_result \<Rightarrow> state" where
  "record_word st w r =
     st\<lparr>sentence_dict := (sentence_dict st)(w \<mapsto> (texts1 r, texts2 r)),
        aff_prop_labels_dict :=
          (aff_prop_labels_dict st)(w \<mapsto> (clusters1 (aff r), clusters2 (aff r))),
        aff_prop_centroids_dict := (aff_prop_centroids_dict st)(w \<mapsto> centroids (aff r)),
        kmeans_5_labels_dict :=
          (kmeans_5_labels_dict st)(w \<mapsto> (clusters1 (km5 r), clusters2 (km5 r))),
        kmeans_5_centroids_dict := (kmeans_5_centroids_dict st)(w \<mapsto> centroids (km5 r)),
        kmeans_7_labels_dict :=
          (kmeans_7_labels_dict st)(w \<mapsto> (clusters1 (km7 r), clusters2 (km7 r))),
        kmeans_7_centroids_dict := (kmeans_7_centroids_dict st)(w \<mapsto> centroids (km7 r)),
        results_dict :=
          \<lparr>word = word (results_dict st) @ [w],
           aff_prop = aff_prop (results_dict st) @ [jsd (aff r)],
           kmeans_5 = kmeans_5 (results_dict st) @ [jsd (km5 r)],
           kmeans_7 = kmeans_7 (results_dict st) @ [jsd (km7 r)],
           averaging = averaging (results_dict st) @ [average_dist r],
           aff_prop_clusters = aff_prop_clusters (results_dict st) @ [n_senses r]\<rparr>\<rparr>"

definition csv_file :: "args \<Rightarrow> string" where
  "csv_file a = semeval_results a @ ''results_'' @ language a @ ''.csv''"

definition sents_file :: "args \<Rightarrow> string" where
  "sents_file a = semeval_results a @ ''sents_'' @ language a @ ''.pkl''"

definition pkl_file :: "args \<Rightarrow> string \<Rightarrow> string" where
  "pkl_file a name = semeval_results a @ name @ language a @ ''.pkl''"

text \<open>Lines 225-261: every file is opened for writing and receives the whole
  accumulator. The writes happen in the order of the source, the later one winning
  where two paths coincide.\<close>

definition save_results :: "args \<Rightarrow> state \<Rightarrow> error + state" where
  "save_results a st =
     and_then (DataFrame_from_dict (results_dict st)) (\<lambda>results_df.
       let f1 = (files st)(csv_file a \<mapsto> Table (sort_values_desc results_df));
           f2 = f1(pkl_file a ''aff_prop_labels_'' \<mapsto> Labels (aff_prop_labels_dict st));
           f3 = f2(pkl_file a ''aff_prop_centroids_'' \<mapsto> Centroids (aff_prop_centroids_dict st));
           f4 = f3(pkl_file a ''kmeans_5_labels_'' \<mapsto> Labels (kmeans_5_labels_dict st));
           f5 = f4(pkl_file a ''kmeans_5_centroids_'' \<mapsto> Centroids (kmeans_5_centroids_dict st));
           f6 = f5(pkl_file a ''kmeans_7_labels_'' \<mapsto> Labels (kmeans_7_labels_dict st));
           f7 = f6(pkl_file a ''kmeans_7_centroids_'' \<mapsto> Centroids (kmeans_7_centroids_dict st));
           f8 = f7(sents_file a \<mapsto> Sentences (sentence_dict st))
       in Inr (st\<lparr>files := f8\<rparr>))"

subsection \<open>The loop over the target words and the script\<close>

definition iteration :: "libs \<Rightarrow> args \<Rightarrow> state \<Rightarrow> string \<times> word_record \<Rightarrow> error + state" where
  "iteration env a st item =
     and_then (analyse_word env (one_embedding_per_sentence a) (fst item) (snd item)) (\<lambda>r.
     save_results a (record_word st (fst item) r))"

text \<open>No statement of the loop catches an exception: the first one ends the script.
  The result is the state the last completed iteration left (the files are what
  remains of it) and the exception, if any.\<close>

fun run :: "libs \<Rightarrow> args \<Rightarrow> state \<Rightarrow> (string \<times> word_record) list \<Rightarrow> state \<times> error option" where
  "run env a st [] = (st, None)"
| "run env a st (item # items) =
     (case iteration env a st item of
        Inl e \<Rightarrow> (st, Some e)
      | Inr st' \<Rightarrow> run env a st' items)"

definition languages :: "string list" where
  "languages = [''english'', ''latin'', ''swedish'', ''german'']"

text \<open>The script: \<open>bert_embeddings\<close> is the unpickled dictionary, as its items in
  order; \<open>fs\<close> is what the output directory holds at the start.\<close>

definition main ::
  "libs \<Rightarrow> args \<Rightarrow> (string \<times> word_record) list \<Rightarrow> (string \<rightharpoonup> file_content) \<Rightarrow> state \<times> error option" where
  "main env a bert_embeddings fs =
     (if language a \<notin> set languages then (initial_state fs, None)
      else run env a (initial_state fs) bert_embeddings)"

section \<open>Notions used to state the properties\<close>

subsection \<open>Distributions and the Jensen-Shannon divergence\<close>

text \<open>A probability distribution over \<open>n\<close> labels, as the list of its \<open>n\<close>
  probabilities.\<close>

definition nonneg :: "real list \<Rightarrow> bool" where
  "nonneg xs \<longleftrightarrow> list_all (\<lambda>x. 0 \<le> x) xs"

definition prob_dist :: "real list \<Rightarrow> bool" where
  "prob_dist p \<longleftrightarrow> list_all (\<lambda>x. 0 \<le> x) p \<and> sum_list p = 1"

text \<open>The summand of the Kullback-Leibler divergence, with \<open>0 log (0 / y) = 0\<close>.\<close>

definition kl_term :: "real \<Rightarrow> real \<Rightarrow> real" where
  "kl_term x y = (if x = 0 then 0 else x * ln (x / y))"

definition midpoint_dist :: "real list \<Rightarrow> real list \<Rightarrow> real list" where
  "midpoint_dist p q = map2 (\<lambda>x y. (x + y) / 2) p q"

text \<open>\<open>0.5 KL(p\<parallel>m) + 0.5 KL(q\<parallel>m)\<close> with \<open>m = 0.5 (p + q)\<close>, on lists.\<close>

definition jsd_list :: "real list \<Rightarrow> real list \<Rightarrow> real" where
  "jsd_list p q =
     (sum_list (map2 kl_term p (midpoint_dist p q)) + sum_list (map2 kl_term q (midpoint_dist p q))) / 2"

definition normalise :: "real list \<Rightarrow> real list" where
  "normalise xs = map (\<lambda>x. x / sum_list xs) xs"

text \<open>\<open>dominated x y\<close>: the pair \<open>(x, y)\<close> has a finite relative entropy.\<close>

definition dominated :: "real \<Rightarrow> real \<Rightarrow> bool" where
  "dominated x y \<longleftrightarrow> 0 \<le> x \<and> 0 \<le> y \<and> (0 < x \<longrightarrow> 0 < y)"

text \<open>What an argument of \<open>compute_jsd\<close> holds when the call is made, and whether
  \<open>np.asarray\<close> makes a float array of it.\<close>

fun contents :: "heap \<Rightarrow> array_like \<Rightarrow> real list" where
  "contents h (NdArray a) = entries (h ! a)"
| "contents h (PyList xs) = map to_float xs"

fun is_float_array :: "ndarray \<Rightarrow> bool" where
  "is_float_array (Int64 xs) \<longleftrightarrow> False"
| "is_float_array (Float64 xs) \<longleftrightarrow> True"

fun float_arg :: "heap \<Rightarrow> array_like \<Rightarrow> bool" where
  "float_arg h (NdArray a) \<longleftrightarrow> is_float_array (h ! a)"
| "float_arg h (PyList xs) \<longleftrightarrow> is_float_array (asarray_list xs)"

text \<open>The divergence of two label lists in the words of the specification: the
  relative frequency of each label in a list, the Kullback-Leibler divergence as a
  sum over a set of labels, and the Jensen-Shannon divergence over the union of the
  labels of the two lists.\<close>

definition label_freq :: "int list \<Rightarrow> int \<Rightarrow> real" where
  "label_freq ls l = real (count_list ls l) / real (length ls)"

definition KL :: "int set \<Rightarrow> (int \<Rightarrow> real) \<Rightarrow> (int \<Rightarrow> real) \<Rightarrow> real" where
  "KL S p m = (\<Sum>l\<in>S. kl_term (p l) (m l))"

definition JSD_spec :: "int list \<Rightarrow> int list \<Rightarrow> real" where
  "JSD_spec labels1 labels2 =
     (let S = set labels1 \<union> set labels2;
          p = label_freq labels1;
          q = label_freq labels2;
          m = (\<lambda>l. 0.5 * (p l + q l))
      in 0.5 * KL S p m + 0.5 * KL S q m)"

subsection \<open>Whole-word matches and first occurrences\<close>

text \<open>The text contains the word \<open>w\<close> with a word boundary on either side.\<close>

definition whole_word_occurrence :: "(char \<Rightarrow> bool) \<Rightarrow> string \<Rightarrow> string \<Rightarrow> bool" where
  "whole_word_occurrence isw w text \<longleftrightarrow>
     (\<exists>l r. text = l @ w @ r \<and> at_boundary isw l (w @ r) \<and> at_boundary isw (l @ w) r)"

text \<open>The text contains, with a word boundary on either side, a string that the
  atoms of a pattern match one by one.\<close>

definition pattern_occurrence :: "(char \<Rightarrow> bool) \<Rightarrow> atom list \<Rightarrow> string \<Rightarrow> bool" where
  "pattern_occurrence isw as text \<longleftrightarrow>
     (\<exists>l m r. text = l @ m @ r \<and> list_all2 atom_match as m
        \<and> at_boundary isw l (m @ r) \<and> at_boundary isw (l @ m) r)"

text \<open>An occurrence (an embedding with its sentence) passes the filter for the
  target word \<open>w\<close>: its sentence has an occurrence of the word's pattern.\<close>

definition survives :: "libs \<Rightarrow> string \<Rightarrow> 'a \<times> string \<Rightarrow> bool" where
  "survives env w occ \<longleftrightarrow>
     (\<exists>as. compile_word (strip_pos w) = Inr as \<and> pattern_occurrence (word_char env) as (snd occ))"

text \<open>\<open>base\<close> is the target word \<open>w\<close> without its part-of-speech suffix, and has
  neither \<open>_nn\<close> nor \<open>_vb\<close> inside. A word is literal when none of its characters
  is special in a pattern.\<close>

definition bare_form :: "string \<Rightarrow> string \<Rightarrow> bool" where
  "bare_form w base \<longleftrightarrow>
     (w = base \<or> w = base @ ''_nn'' \<or> w = base @ ''_vb'')
     \<and> \<not> sublist ''_nn'' base \<and> \<not> sublist ''_vb'' base"

definition regex_literal :: "string \<Rightarrow> bool" where
  "regex_literal w \<longleftrightarrow> list_all (\<lambda>c. \<not> regex_meta c) w"

text \<open>Of the occurrences with one sentence text, the first is kept and the later
  ones are dropped.\<close>

function first_by_text :: "('a \<times> string) list \<Rightarrow> ('a \<times> string) list" where
  "first_by_text [] = []"
| "first_by_text (x # xs) = x # first_by_text (filter (\<lambda>y. snd y \<noteq> snd x) xs)"
  by pat_completeness auto
termination
  by (relation "measure length") (auto simp: less_Suc_eq_le)

definition kept :: "libs \<Rightarrow> bool \<Rightarrow> string \<Rightarrow> (emb \<times> string) list \<Rightarrow> (emb \<times> string) list" where
  "kept env one w occs =
     (if one then first_by_text (filter (survives env w) occs) else filter (survives env w) occs)"

subsection \<open>Arrays, libraries and tables\<close>

text \<open>\<open>matrix X d\<close>: \<open>X\<close> is a non-empty two-dimensional array with \<open>d > 0\<close>
  columns.\<close>

definition matrix :: "emb list \<Rightarrow> nat \<Rightarrow> bool" where
  "matrix X d \<longleftrightarrow> X \<noteq> [] \<and> 0 < d \<and> list_all (\<lambda>x. length x = d) X"


text \<open>The three clustering calls of the loop return on \<open>X\<close>, with one label for each
  row.\<close>

definition fits :: "libs \<Rightarrow> emb list \<Rightarrow> bool" where
  "fits env X \<longleftrightarrow>
     (\<exists>l c. AffinityPropagation env None X = Inr (l, c) \<and> length l = length X)
     \<and> (\<exists>l c. KMeans env 5 X = Inr (l, c) \<and> length l = length X)
     \<and> (\<exists>l c. KMeans env 7 X = Inr (l, c) \<and> length l = length X)"

definition cosine_distance :: "emb \<Rightarrow> emb \<Rightarrow> real" where
  "cosine_distance x y = 1 - dot (unit_row x) (unit_row y)"

text \<open>The columns of the accumulator have one length; the rows they make; a table
  in descending order of the \<open>aff_prop\<close> score; the table a state holds on disk
  for the rows of its accumulator.\<close>

definition aligned :: "results_columns \<Rightarrow> bool" where
  "aligned d \<longleftrightarrow>
     length (aff_prop d) = length (word d) \<and> length (kmeans_5 d) = length (word d)
     \<and> length (kmeans_7 d) = length (word d) \<and> length (averaging d) = length (word d)
     \<and> length (aff_prop_clusters d) = length (word d)"

definition rows_of :: "results_columns \<Rightarrow> row list" where
  "rows_of d = zip (word d) (zip (aff_prop d) (zip (kmeans_5 d) (zip (kmeans_7 d)
                 (zip (averaging d) (aff_prop_clusters d)))))"

definition descending :: "row list \<Rightarrow> bool" where
  "descending rows \<longleftrightarrow> sorted_wrt (\<lambda>r r'. row_aff_prop r' \<le> row_aff_prop r) rows"

definition table_written :: "args \<Rightarrow> state \<Rightarrow> bool" where
  "table_written a st \<longleftrightarrow>
     (\<exists>rows. files st (csv_file a) = Some (Table rows) \<and> descending rows
        \<and> mset rows = mset (rows_of (results_dict st)))"

text \<open>The exemplar-based divergence score of a dictionary item: the occurrences are
  selected, the affinity propagation is run on slice 1 followed by slice 2, and the
  divergence is taken of its labels for slice 1 and for slice 2. A row is read as
  its word with its \<open>aff_prop\<close> score.\<close>

definition exemplar_score :: "libs \<Rightarrow> bool \<Rightarrow> string \<times> word_record \<Rightarrow> error + real" where
  "exemplar_score env one item =
     and_then (select_occurrences env one (fst item) (snd item)) (\<lambda>((e1, x1), (e2, x2)).
     and_then (AffinityPropagation env None (e1 @ e2)) (\<lambda>(l, c).
     compute_divergence_from_cluster_labels (take (length e1) l) (drop (length e1) l)))"

definition scored :: "libs \<Rightarrow> args \<Rightarrow> string \<times> word_record \<Rightarrow> string \<times> (error + real)" where
  "scored env a item = (fst item, exemplar_score env (one_embedding_per_sentence a) item)"

definition row_key :: "row \<Rightarrow> string \<times> (error + real)" where
  "row_key r = (row_word r, Inr (row_aff_prop r))"

subsection \<open>Concrete inputs\<close>

text \<open>The word characters of ASCII; a library whose clusterings put every row in
  cluster 0 (\<open>KMeans\<close> refusing fewer rows than clusters, as scikit-learn does) and
  one whose affinity propagation separates the embeddings below 5 from the others;
  small dictionary entries; an output directory that holds a table already.\<close>

definition ascii_word_char :: "char \<Rightarrow> bool" where
  "ascii_word_char c \<longleftrightarrow>
     (let n = (of_char c :: nat) in
      (48 \<le> n \<and> n \<le> 57) \<or> (65 \<le> n \<and> n \<le> 90) \<or> (97 \<le> n \<and> n \<le> 122) \<or> n = 95)"

definition ascii_libs :: libs where
  "ascii_libs =
     \<lparr>AffinityPropagation = (\<lambda>pref X. Inr (map (\<lambda>x. 0) X, [hd X])),
      KMeans = (\<lambda>k X. if length X < k then Inl ValueError
                       else Inr (map (\<lambda>x. 0) X, replicate k (hd X))),
      word_char = ascii_word_char\<rparr>"

definition threshold_libs :: libs where
  "threshold_libs =
     \<lparr>AffinityPropagation = (\<lambda>pref X. Inr (map (\<lambda>x. if hd x < 5 then 0 else 1) X, [hd X])),
      KMeans = (\<lambda>k X. if length X < k then Inl ValueError
                       else Inr (map (\<lambda>x. 0) X, replicate k (hd X))),
      word_char = ascii_word_char\<rparr>"

definition plane_record :: word_record where
  "plane_record =
     \<lparr>t1 = [[1], [2], [3]], t2 = [[4]],
      t1_text = [''a plane flew'', ''airplane noise'', ''the plane landed''],
      t2_text = [''two airplanes'']\<rparr>"

definition cell_record :: word_record where
  "cell_record =
     \<lparr>t1 = [[1], [2], [3], [4], [5], [6]], t2 = [[7], [8], [9], [10]],
      t1_text = [''the cell divides'', ''the cell divides'', ''a prison cell'',
                 ''cells everywhere'', ''cell phone'', ''my cell''],
      t2_text = [''cell tower'', ''one cell'', ''cell data'', ''a cell plan'']\<rparr>"

definition dot_record :: word_record where
  "dot_record = \<lparr>t1 = [[1], [2]], t2 = [], t1_text = [''a cat'', ''cut''], t2_text = []\<rparr>"

definition inner_record :: word_record where
  "inner_record = \<lparr>t1 = [[1]], t2 = [], t1_text = [''ab''], t2_text = []\<rparr>"

definition stay_record :: word_record where
  "stay_record =
     \<lparr>t1 = [[1], [2], [6], [7]], t2 = [[3], [4], [8], [9]],
      t1_text = [''we stay'', ''stay here'', ''to stay on'', ''stay put''],
      t2_text = [''they stay'', ''stay there'', ''a stay of'', ''stay in'']\<rparr>"

definition move_record :: word_record where
  "move_record =
     \<lparr>t1 = [[1], [2], [3], [4]], t2 = [[6], [7], [8], [9]],
      t1_text = [''we move'', ''move here'', ''to move on'', ''move out''],
      t2_text = [''they move'', ''move there'', ''a move of'', ''move in'']\<rparr>"

definition stale_files :: "string \<rightharpoonup> file_content" where
  "stale_files = [''semeval_results/results_english.csv'' \<mapsto> Table [(''old'', 5, 5, 5, 5, 1)]]"

definition dedupe_args :: args where
  "dedupe_args = default_args\<lparr>one_embedding_per_sentence := True\<rparr>"

section \<open>Properties\<close>

subsection \<open>Outcomes\<close>

lemma and_then_Inr [simp]: "and_then (Inr v) f = f v"
  by (simp add: and_then_def)

lemma and_then_Inl [simp]: "and_then (Inl e) f = Inl e"
  by (simp add: and_then_def)

lemma and_then_eq_Inr: "and_then r f = Inr y \<longleftrightarrow> (\<exists>v. r = Inr v \<and> f v = Inr y)"
  by (cases r) simp_all

lemma collect_map_Inr: "(\<And>x. x \<in> set xs \<Longrightarrow> f x = Inr (g x)) \<Longrightarrow> collect (map f xs) = Inr (map g xs)"
  by (induction xs) simp_all

subsection \<open>Relative entropy of distributions\<close>

lemma rel_entr_dominated: "dominated x y \<Longrightarrow> rel_entr x y = Inr (kl_term x y)"
  by (auto simp: dominated_def rel_entr_def kl_term_def)

lemma collect_rel_entr:
  "list_all2 dominated p m \<Longrightarrow> collect (map2 rel_entr p m) = Inr (map2 kl_term p m)"
  by (induction p m rule: list_all2_induct) (simp_all add: rel_entr_dominated)

lemma np_div_scalar_one [simp]: "np_div_scalar xs 1 = Inr xs"
  by (simp add: np_div_scalar_def)

lemma entropy_dist:
  assumes "sum_list p = 1" "sum_list m = 1" "list_all2 dominated p m"
  shows "entropy p m = Inr (sum_list (map2 kl_term p m))"
proof -
  have "length m = length p" using assms(3) by (simp add: list_all2_lengthD)
  then show ?thesis using assms by (simp add: entropy_def collect_rel_entr)
qed

lemma kl_term_lower: "dominated x y \<Longrightarrow> x - y \<le> kl_term x y"
proof (cases "x = 0")
  case True
  assume "dominated x y"
  with True show ?thesis by (simp add: kl_term_def dominated_def)
next
  case False
  assume d: "dominated x y"
  with False have x: "0 < x" and y: "0 < y" by (auto simp: dominated_def)
  have "ln (y / x) \<le> y / x - 1" using x y by (intro ln_le_minus_one) simp
  then have "x * ln (y / x) \<le> x * (y / x - 1)" using x by (intro mult_left_mono) simp_all
  also have "\<dots> = y - x" using x by (simp add: field_simps)
  finally have "x * ln (y / x) \<le> y - x" .
  moreover have "ln (x / y) = - ln (y / x)" using x y by (simp add: ln_div)
  ultimately show ?thesis using False by (simp add: kl_term_def)
qed

lemma kl_sum_lower:
  "list_all2 dominated p m \<Longrightarrow> sum_list p - sum_list m \<le> sum_list (map2 kl_term p m)"
proof (induction p m rule: list_all2_induct)
  case Nil
  then show ?case by simp
next
  case (Cons x xs y ys)
  from kl_term_lower [OF Cons.hyps(1)] Cons.IH show ?case by simp
qed

lemma kl_term_upper:
  assumes "0 \<le> x" "0 \<le> z"
  shows "kl_term x ((x + z) / 2) \<le> x * ln 2"
proof (cases "x = 0")
  case True
  then show ?thesis by (simp add: kl_term_def)
next
  case False
  with assms have x: "0 < x" by simp
  have "x / ((x + z) / 2) \<le> 2" using x assms(2) by (simp add: field_simps)
  moreover have "0 < x / ((x + z) / 2)" using x assms(2) by simp
  ultimately have "ln (x / ((x + z) / 2)) \<le> ln 2" by (simp add: ln_le_cancel_iff)
  then have "x * ln (x / ((x + z) / 2)) \<le> x * ln 2" using x by (intro mult_left_mono) simp_all
  then show ?thesis using False by (simp add: kl_term_def)
qed

lemma sum_list_divide: "sum_list (map (\<lambda>x. x / c) xs) = sum_list xs / (c::real)"
  by (induction xs) (simp_all add: add_divide_distrib)

lemma sum_list_normalise: "sum_list xs \<noteq> 0 \<Longrightarrow> sum_list (normalise xs) = 1"
  by (simp add: normalise_def sum_list_divide)

lemma length_normalise [simp]: "length (normalise xs) = length xs"
  by (simp add: normalise_def)

lemma normalise_unit: "sum_list xs = 1 \<Longrightarrow> normalise xs = xs"
  by (simp add: normalise_def)

lemma normalise_Nil [simp]: "normalise [] = []"
  by (simp add: normalise_def)

lemma np_div_scalar_sum:
  "np_div_scalar xs (sum_list xs) = (if sum_list xs = 0 \<and> xs \<noteq> [] then Inl NonFinite else Inr (normalise xs))"
  by (simp add: np_div_scalar_def normalise_def)


lemma nonneg_normalise:
  "list_all (\<lambda>x. 0 \<le> x) xs \<Longrightarrow> 0 < sum_list xs \<Longrightarrow> list_all (\<lambda>x. 0 \<le> x) (normalise xs)"
  by (simp add: normalise_def list_all_iff)

lemma prob_dist_normalise:
  "list_all (\<lambda>x. 0 \<le> x) xs \<Longrightarrow> 0 < sum_list xs \<Longrightarrow> prob_dist (normalise xs)"
  by (simp add: prob_dist_def nonneg_normalise sum_list_normalise)

lemma length_midpoint [simp]: "length (midpoint_dist p q) = min (length p) (length q)"
  by (simp add: midpoint_dist_def)

lemma sum_list_midpoint:
  "length p = length q \<Longrightarrow> sum_list (midpoint_dist p q) = (sum_list p + sum_list q) / 2"
  by (induction p q rule: list_induct2) (simp_all add: midpoint_dist_def add_divide_distrib)

lemma midpoint_commute: "midpoint_dist p q = midpoint_dist q p"
proof -
  have "map2 (\<lambda>x y. (x + y) / 2) p q = map2 (\<lambda>x y. (x + y) / 2) q (p::real list)"
    by (induction p arbitrary: q) (auto simp: add.commute split: list.splits, case_tac q, auto simp: add.commute)
  then show ?thesis by (simp add: midpoint_dist_def)
qed

lemma dominated_midpoint_left:
  "length p = length q \<Longrightarrow> list_all (\<lambda>x. 0 \<le> x) p \<Longrightarrow> list_all (\<lambda>x. 0 \<le> x) q
   \<Longrightarrow> list_all2 dominated p (midpoint_dist p q)"
  by (induction p q rule: list_induct2) (auto simp: midpoint_dist_def dominated_def)

lemma dominated_midpoint_right:
  "length p = length q \<Longrightarrow> list_all (\<lambda>x. 0 \<le> x) p \<Longrightarrow> list_all (\<lambda>x. 0 \<le> x) q
   \<Longrightarrow> list_all2 dominated q (midpoint_dist p q)"
  by (induction p q rule: list_induct2) (auto simp: midpoint_dist_def dominated_def)

text \<open>The value computed by lines 23-24 on two stored distributions.\<close>

lemma jsd_tail:
  assumes "prob_dist p" "prob_dist q" "length p = length q"
  shows "and_then (np_add p q) (\<lambda>s.
         and_then (np_div_scalar s 2) (\<lambda>m.
         and_then (entropy p m) (\<lambda>e1.
         and_then (entropy q m) (\<lambda>e2. Inr (h, (e1 + e2) / 2))))) = Inr (h, jsd_list p q)"
proof -
  let ?m = "midpoint_dist p q"
  have sm: "sum_list ?m = 1" using assms by (simp add: sum_list_midpoint prob_dist_def)
  have e1: "entropy p ?m = Inr (sum_list (map2 kl_term p ?m))"
    using assms sm by (intro entropy_dist dominated_midpoint_left) (simp_all add: prob_dist_def)
  have e2: "entropy q ?m = Inr (sum_list (map2 kl_term q ?m))"
    using assms sm by (intro entropy_dist dominated_midpoint_right) (simp_all add: prob_dist_def)
  have m: "np_add p q = Inr (map2 (+) p q)" "np_div_scalar (map2 (+) p q) 2 = Inr ?m"
    using assms(3) by (auto simp: np_add_def np_div_scalar_def midpoint_dist_def)
  show ?thesis by (simp add: m e1 e2 jsd_list_def)
qed

lemma jsd_list_commute: "jsd_list p q = jsd_list q p"
  by (simp add: jsd_list_def midpoint_commute [of p q] add.commute)

lemma kl_term_self [simp]: "kl_term x x = 0"
  by (simp add: kl_term_def)

lemma midpoint_self: "midpoint_dist p p = p"
  by (induction p) (simp_all add: midpoint_dist_def)

lemma kl_sum_self: "sum_list (map2 kl_term p p) = 0"
  by (induction p) simp_all

lemma jsd_list_self: "jsd_list p p = 0"
  by (simp add: jsd_list_def midpoint_self kl_sum_self)

lemma kl_sum_upper:
  "length p = length q \<Longrightarrow> nonneg p \<Longrightarrow> nonneg q
   \<Longrightarrow> sum_list (map2 kl_term p (midpoint_dist p q)) \<le> sum_list p * ln 2"
proof (induction p q rule: list_induct2)
  case Nil
  then show ?case by (simp add: midpoint_dist_def)
next
  case (Cons x xs y ys)
  then have "kl_term x ((x + y) / 2) \<le> x * ln 2"
    by (intro kl_term_upper) (simp_all add: nonneg_def)
  moreover have "sum_list (map2 kl_term xs (midpoint_dist xs ys)) \<le> sum_list xs * ln 2"
    using Cons by (simp add: nonneg_def)
  ultimately show ?case by (simp add: midpoint_dist_def algebra_simps)
qed

lemma jsd_list_bounds:
  assumes "prob_dist p" "prob_dist q" "length p = length q"
  shows "0 \<le> jsd_list p q" and "jsd_list p q \<le> ln 2"
proof -
  let ?m = "midpoint_dist p q"
  have np: "nonneg p" and nq: "nonneg q" using assms by (simp_all add: prob_dist_def nonneg_def)
  have sm: "sum_list ?m = 1" using assms by (simp add: sum_list_midpoint prob_dist_def)
  have "sum_list p - sum_list ?m \<le> sum_list (map2 kl_term p ?m)"
    using assms by (intro kl_sum_lower dominated_midpoint_left) (simp_all add: prob_dist_def)
  moreover have "sum_list q - sum_list ?m \<le> sum_list (map2 kl_term q ?m)"
    using assms by (intro kl_sum_lower dominated_midpoint_right) (simp_all add: prob_dist_def)
  ultimately show "0 \<le> jsd_list p q"
    using assms sm by (simp add: jsd_list_def prob_dist_def)
  have "sum_list (map2 kl_term p ?m) \<le> sum_list p * ln 2"
    using assms np nq by (intro kl_sum_upper)
  moreover have "sum_list (map2 kl_term q (midpoint_dist q p)) \<le> sum_list q * ln 2"
    using assms np nq by (intro kl_sum_upper) simp_all
  ultimately show "jsd_list p q \<le> ln 2"
    using assms by (simp add: jsd_list_def prob_dist_def midpoint_commute [of p q])
qed

subsection \<open>compute\_jsd on the store\<close>

lemma float_array_entries: "is_float_array c \<Longrightarrow> c = Float64 (entries c)"
  by (cases c) simp_all

lemma entries_asarray_list [simp]: "entries (asarray_list xs) = map to_float xs"
proof -
  have "list_all is_int xs \<Longrightarrow> map (\<lambda>x. real_of_int (to_int x)) xs = map to_float xs"
    by (induction xs) (auto elim: is_int.elims)
  then show ?thesis by (auto simp: asarray_list_def comp_def)
qed

lemma idiv_sum_pos:
  "h ! a = Float64 xs \<Longrightarrow> 0 < sum_list xs \<Longrightarrow> idiv_sum h a = Inr (h[a := Float64 (normalise xs)])"
  by (simp add: idiv_sum_def np_div_scalar_sum)


lemma jsd_stored:
  assumes "p < length h" "q < length h" "h ! p = Float64 P0" "h ! q = Float64 Q0"
    and "nonneg P0" "nonneg Q0" "0 < sum_list P0" "0 < sum_list Q0" "length P0 = length Q0"
  shows "and_then (idiv_sum h p) (\<lambda>h3.
         and_then (idiv_sum h3 q) (\<lambda>h4.
         and_then (np_add (entries (h4 ! p)) (entries (h4 ! q))) (\<lambda>s.
         and_then (np_div_scalar s 2) (\<lambda>m.
         and_then (entropy (entries (h4 ! p)) m) (\<lambda>e1.
         and_then (entropy (entries (h4 ! q)) m) (\<lambda>e2.
         Inr (h4, (e1 + e2) / 2)))))))
       = Inr (h[p := Float64 (normalise P0), q := Float64 (normalise Q0)],
              jsd_list (normalise P0) (normalise Q0))"
proof -
  let ?P = "normalise P0" and ?Q = "normalise Q0"
  let ?h3 = "h[p := Float64 ?P]" and ?h4 = "h[p := Float64 ?P, q := Float64 ?Q]"
  have P: "prob_dist ?P" and Q: "prob_dist ?Q"
    using assms by (simp_all add: prob_dist_normalise nonneg_def)
  have s3: "idiv_sum h p = Inr ?h3" using assms by (simp add: idiv_sum_pos)
  have q3: "?h3 ! q = Float64 (if p = q then ?P else Q0)"
    using assms by (cases "p = q") simp_all
  have nq: "normalise (if p = q then ?P else Q0) = ?Q"
  proof (cases "p = q")
    case True
    then have "P0 = Q0" using assms(3,4) by simp
    with True P show ?thesis by (simp add: normalise_unit prob_dist_def)
  next
    case False
    then show ?thesis by simp
  qed
  have "0 < sum_list (if p = q then ?P else Q0)"
    using assms P by (simp add: prob_dist_def)
  from idiv_sum_pos [OF q3 this] have s4: "idiv_sum ?h3 q = Inr ?h4" by (simp add: nq)
  have "?h4 ! p = Float64 ?P"
  proof (cases "p = q")
    case True
    then have "P0 = Q0" using assms(3,4) by simp
    with True assms show ?thesis by simp
  next
    case False
    then show ?thesis using assms by simp
  qed
  then have rp: "entries (?h4 ! p) = ?P" by simp
  have rq: "entries (?h4 ! q) = ?Q" using assms by simp
  have len: "length ?P = length ?Q" using assms by simp
  show ?thesis
    unfolding s3 s4 and_then_Inr rp rq by (rule jsd_tail [OF P Q len])
qed

lemma np_asarray_facts:
  assumes "np_asarray h x = (h1, p)" "valid_arg h x"
  shows "length h \<le> length h1" "p < length h1" "entries (h1 ! p) = contents h x"
    "is_float_array (h1 ! p) \<longleftrightarrow> float_arg h x"
    "\<And>c. c < length h \<Longrightarrow> h1 ! c = h ! c"
    "\<And>a. x = NdArray a \<Longrightarrow> p = a"
  using assms by (cases x; auto simp: nth_append)+

lemma np_asarray_keeps:
  assumes "np_asarray h x = (h1, p)" "valid_arg h y"
  shows "valid_arg h1 y" "contents h1 y = contents h y" "float_arg h1 y \<longleftrightarrow> float_arg h y"
  using assms by (cases x; cases y; auto simp: nth_append)+

text \<open>\<open>compute_jsd\<close> returns on all non-negative float arguments of equal length
  and positive sums, with the divergence of the normalised arguments.\<close>

lemma compute_jsd_value:
  assumes "valid_arg h x" "valid_arg h y" "float_arg h x" "float_arg h y"
    and "nonneg (contents h x)" "nonneg (contents h y)"
    and "0 < sum_list (contents h x)" "0 < sum_list (contents h y)"
    and "length (contents h x) = length (contents h y)"
  shows "\<exists>h'. compute_jsd h x y =
           Inr (h', jsd_list (normalise (contents h x)) (normalise (contents h y)))"
proof -
  obtain h1 p where 1: "np_asarray h x = (h1, p)" by (cases "np_asarray h x")
  obtain h2 q where 2: "np_asarray h1 y = (h2, q)" by (cases "np_asarray h1 y")
  note X = np_asarray_facts [OF 1 assms(1)] and K = np_asarray_keeps [OF 1 assms(2)]
  note Y = np_asarray_facts [OF 2 K(1)]
  have p2: "p < length h2" "h2 ! p = Float64 (contents h x)"
    using X(2,3,4) Y(1) Y(5) [of p] assms(3) float_array_entries [of "h1 ! p"] by simp_all
  have q2: "q < length h2" "h2 ! q = Float64 (contents h y)"
    using Y(2,3,4) K(2,3) assms(4) float_array_entries [of "h2 ! q"] by simp_all
  have "compute_jsd h x y =
          Inr (h2[p := Float64 (normalise (contents h x)), q := Float64 (normalise (contents h y))],
               jsd_list (normalise (contents h x)) (normalise (contents h y)))"
    unfolding compute_jsd_def using assms(1,2)
    by (simp add: 1 2 jsd_stored [OF p2(1) q2(1) p2(2) q2(2)] assms)
  then show ?thesis by blast
qed


text \<open>On the one-hot distributions \<open>[1, 0]\<close> and \<open>[0, 1]\<close> written with integers,
  as lists or as an integer array, \<open>compute_jsd\<close> returns no value: the in-place
  division raises \<open>TypeError\<close>.\<close>

theorem compute_jsd_integer_input_counterexample:
  "prob_dist (contents [] (PyList [IntNum 1, IntNum 0]))
   \<and> prob_dist (contents [] (PyList [IntNum 0, IntNum 1]))
   \<and> compute_jsd [] (PyList [IntNum 1, IntNum 0]) (PyList [IntNum 0, IntNum 1]) = Inl TypeError
   \<and> compute_jsd [Int64 [1, 0]] (NdArray 0) (NdArray 0) = Inl TypeError"
  by (simp add: prob_dist_def compute_jsd_def asarray_list_def idiv_sum_def)

text \<open>
  Claim C2, amended. For probability distributions \<open>p\<close> and \<open>q\<close> over the same
  labels (non-negative entries of sum 1) given as float arrays or as lists that
  \<open>np.asarray\<close> turns into float arrays, \<open>compute_jsd\<close> returns the same value for
  \<open>(p, q)\<close> and \<open>(q, p)\<close>, that value lies between \<open>0\<close> and \<open>ln 2\<close>, and
  \<open>compute_jsd(p, p)\<close> is \<open>0\<close>.
\<close>

theorem compute_jsd_symmetric_bounded:
  assumes "valid_arg h p" "valid_arg h q" "float_arg h p" "float_arg h q"
    and "prob_dist (contents h p)" "prob_dist (contents h q)"
    and "length (contents h p) = length (contents h q)"
  shows "\<exists>v h1 h2 h3. compute_jsd h p q = Inr (h1, v) \<and> compute_jsd h q p = Inr (h2, v)
           \<and> 0 \<le> v \<and> v \<le> ln 2 \<and> compute_jsd h p p = Inr (h3, 0)"
proof -
  let ?P = "contents h p" and ?Q = "contents h q"
  have n: "nonneg ?P" "nonneg ?Q" "0 < sum_list ?P" "0 < sum_list ?Q"
    using assms by (simp_all add: prob_dist_def nonneg_def)
  have u: "normalise ?P = ?P" "normalise ?Q = ?Q"
    using assms by (simp_all add: prob_dist_def normalise_unit)
  from compute_jsd_value [OF assms(1,2,3,4) n assms(7)] u
  obtain h1 where 1: "compute_jsd h p q = Inr (h1, jsd_list ?P ?Q)" by auto
  from compute_jsd_value [OF assms(2,1,4,3) n(2,1,4,3) assms(7) [symmetric]] u
  obtain h2 where 2: "compute_jsd h q p = Inr (h2, jsd_list ?P ?Q)"
    by (auto simp: jsd_list_commute [of ?Q ?P])
  from compute_jsd_value [OF assms(1,1,3,3) n(1,1,3,3) refl] u
  obtain h3 where 3: "compute_jsd h p p = Inr (h3, 0)"
    by (auto simp: jsd_list_self)
  from jsd_list_bounds [OF assms(5,6,7)] 1 2 3 show ?thesis by blast
qed

theorem compute_jsd_symmetric_bounded_witness:
  "\<exists>v h1 h2 h3.
     compute_jsd [Float64 [1/2, 1/2]] (NdArray 0) (PyList [IntNum 1, FloatNum 0]) = Inr (h1, v)
     \<and> compute_jsd [Float64 [1/2, 1/2]] (PyList [IntNum 1, FloatNum 0]) (NdArray 0) = Inr (h2, v)
     \<and> 0 \<le> v \<and> v \<le> ln 2
     \<and> compute_jsd [Float64 [1/2, 1/2]] (NdArray 0) (NdArray 0) = Inr (h3, 0)"
  using compute_jsd_symmetric_bounded
    [of "[Float64 [1/2, 1/2]]" "NdArray 0" "PyList [IntNum 1, FloatNum 0]"]
  by (simp add: prob_dist_def asarray_list_def)



subsection \<open>The divergence of two label lists\<close>

lemma sum_counts:
  assumes "set xs \<subseteq> set ns" "distinct ns"
  shows "sum_list (map (\<lambda>i. real (count_list xs i)) ns) = real (length xs)"
proof -
  have "sum_list (map (\<lambda>i. real (count_list xs i)) ns) = (\<Sum>i\<in>set ns. real (count_list xs i))"
    using assms(2) by (simp add: sum_list_distinct_conv_sum_set)
  also have "\<dots> = real (\<Sum>i\<in>set ns. count_list xs i)" by simp
  also have "(\<Sum>i\<in>set ns. count_list xs i) = length xs"
    using assms(1) by (intro sum_count_set) simp_all
  finally show ?thesis .
qed

lemma map2_same: "map2 f (map g ns) (map h ns) = map (\<lambda>l. f (g l) (h l)) ns"
  by (induction ns) simp_all

lemma jsd_list_freq:
  assumes "distinct ns"
  shows "jsd_list (map p ns) (map q ns) =
         0.5 * KL (set ns) p (\<lambda>l. 0.5 * (p l + q l)) + 0.5 * KL (set ns) q (\<lambda>l. 0.5 * (p l + q l))"
proof -
  have m: "midpoint_dist (map p ns) (map q ns) = map (\<lambda>l. 0.5 * (p l + q l)) ns"
    by (simp add: midpoint_dist_def map2_same)
  show ?thesis
    using assms
    by (simp add: jsd_list_def m map2_same KL_def sum_list_distinct_conv_sum_set add_divide_distrib)
qed

text \<open>Whatever order \<open>list(set(labels_all))\<close> has, the result is the same.\<close>

lemma divergence_order_irrelevant:
  assumes "labels1 \<noteq> []" "labels2 \<noteq> []"
    and "distinct ns" "set ns = set labels1 \<union> set labels2"
  shows "divergence_over ns labels1 labels2 = Inr (JSD_spec labels1 labels2)"
proof -
  let ?c1 = "map (\<lambda>i. real (count_list labels1 i)) ns"
  let ?c2 = "map (\<lambda>i. real (count_list labels2 i)) ns"
  let ?p = "map (label_freq labels1) ns" and ?q = "map (label_freq labels2) ns"
  have s1: "sum_list ?c1 = real (length labels1)" using assms by (intro sum_counts) auto
  have s2: "sum_list ?c2 = real (length labels2)" using assms by (intro sum_counts) auto
  have d1: "np_div_scalar ?c1 (sum_list ?c1) = Inr ?p"
    using assms(1) by (simp add: s1 np_div_scalar_def label_freq_def [abs_def])
  have d2: "np_div_scalar ?c2 (sum_list ?c2) = Inr ?q"
    using assms(2) by (simp add: s2 np_div_scalar_def label_freq_def [abs_def])
  have sp: "sum_list ?p = 1"
    using assms(1) s1 sum_list_divide [of "real (length labels1)" ?c1]
    by (simp add: label_freq_def [abs_def] comp_def)
  have sq: "sum_list ?q = 1"
    using assms(2) s2 sum_list_divide [of "real (length labels2)" ?c2]
    by (simp add: label_freq_def [abs_def] comp_def)
  have nn: "nonneg ?p" "nonneg ?q"
    by (simp_all add: nonneg_def list_all_iff label_freq_def)
  from compute_jsd_value [of "[Float64 ?p, Float64 ?q]" "NdArray 0" "NdArray 1"] nn sp sq
  obtain h' where
    "compute_jsd [Float64 ?p, Float64 ?q] (NdArray 0) (NdArray 1) = Inr (h', jsd_list ?p ?q)"
    by (auto simp: normalise_unit)
  moreover have "jsd_list ?p ?q = JSD_spec labels1 labels2"
    using assms(3,4) by (simp add: jsd_list_freq JSD_spec_def Let_def)
  ultimately show ?thesis
    unfolding divergence_over_def Let_def d1 d2 and_then_Inr by simp
qed

text \<open>
  Claim C1. For non-empty label lists, \<open>compute_divergence_from_cluster_labels\<close>
  returns the Jensen-Shannon divergence \<open>0.5 KL(p\<parallel>m) + 0.5 KL(q\<parallel>m)\<close>,
  \<open>m = 0.5 (p + q)\<close>, of the relative frequencies \<open>p\<close>, \<open>q\<close> of the labels in the
  two lists, taken over the labels that occur in either list.
\<close>

theorem divergence_is_jsd_of_label_frequencies:
  assumes "labels1 \<noteq> []" "labels2 \<noteq> []"
  shows "compute_divergence_from_cluster_labels labels1 labels2 = Inr (JSD_spec labels1 labels2)"
  unfolding compute_divergence_from_cluster_labels_def Let_def
  using assms by (intro divergence_order_irrelevant) simp_all

theorem divergence_is_jsd_of_label_frequencies_witness:
  "compute_divergence_from_cluster_labels [0, 0, 1] [1, 2] = Inr (JSD_spec [0, 0, 1] [1, 2])"
  using divergence_is_jsd_of_label_frequencies [of "[0, 0, 1]" "[1, 2]"] by simp

subsection \<open>The pattern of a target word\<close>

lemma atoms_prefix_iff:
  "atoms_prefix as r \<longleftrightarrow> (\<exists>m s2. r = m @ s2 \<and> list_all2 atom_match as m)"
proof (induction as r rule: atoms_prefix.induct)
  case (1 r)
  then show ?case by simp
next
  case (2 a as)
  then show ?case by (auto simp: list_all2_Cons1)
next
  case (3 a as c cs)
  show ?case
  proof
    assume "atoms_prefix (a # as) (c # cs)"
    with 3 obtain m s2 where "atom_match a c" "cs = m @ s2" "list_all2 atom_match as m" by auto
    then show "\<exists>m s2. c # cs = m @ s2 \<and> list_all2 atom_match (a # as) m"
      by (intro exI [of _ "c # m"] exI [of _ s2]) simp
  next
    assume "\<exists>m s2. c # cs = m @ s2 \<and> list_all2 atom_match (a # as) m"
    then obtain m s2 where m: "c # cs = m @ s2" "list_all2 atom_match (a # as) m" by blast
    then obtain d m' where "m = d # m'" "atom_match a d" "list_all2 atom_match as m'"
      by (auto simp: list_all2_Cons1)
    with m 3 show "atoms_prefix (a # as) (c # cs)" by auto
  qed
qed

lemma match_at_iff:
  "match_at isw as l r \<longleftrightarrow>
     (\<exists>m s2. r = m @ s2 \<and> list_all2 atom_match as m
        \<and> at_boundary isw l (m @ s2) \<and> at_boundary isw (l @ m) s2)"
proof
  assume "match_at isw as l r"
  then obtain m s2 where m: "r = m @ s2" "list_all2 atom_match as m"
    and b: "at_boundary isw l r" "at_boundary isw (l @ take (length as) r) (drop (length as) r)"
    by (auto simp: match_at_def atoms_prefix_iff)
  from m(2) have "length as = length m" by (rule list_all2_lengthD)
  with m b show "\<exists>m s2. r = m @ s2 \<and> list_all2 atom_match as m
        \<and> at_boundary isw l (m @ s2) \<and> at_boundary isw (l @ m) s2"
    by (intro exI [of _ m] exI [of _ s2]) simp
next
  assume "\<exists>m s2. r = m @ s2 \<and> list_all2 atom_match as m
        \<and> at_boundary isw l (m @ s2) \<and> at_boundary isw (l @ m) s2"
  then obtain m s2 where m: "r = m @ s2" "list_all2 atom_match as m"
    "at_boundary isw l (m @ s2)" "at_boundary isw (l @ m) s2" by blast
  from m(2) have "length as = length m" by (rule list_all2_lengthD)
  with m show "match_at isw as l r"
    by (auto simp: match_at_def atoms_prefix_iff)
qed

lemma search_from_iff:
  "search_from isw as l s \<longleftrightarrow>
     (\<exists>s1 m s2. s = s1 @ m @ s2 \<and> list_all2 atom_match as m
        \<and> at_boundary isw (l @ s1) (m @ s2) \<and> at_boundary isw (l @ s1 @ m) s2)"
proof (induction s arbitrary: l)
  case Nil
  then show ?case by (auto simp: match_at_iff)
next
  case (Cons c cs)
  show ?case (is "?L \<longleftrightarrow> ?R")
  proof
    assume ?L
    then consider "match_at isw as l (c # cs)" | "search_from isw as (l @ [c]) cs" by auto
    then show ?R
    proof cases
      case 1
      then obtain m s2 where "c # cs = m @ s2" "list_all2 atom_match as m"
        "at_boundary isw l (m @ s2)" "at_boundary isw (l @ m) s2"
        by (auto simp: match_at_iff)
      then show ?thesis by (intro exI [of _ "[]"] exI [of _ m] exI [of _ s2]) simp
    next
      case 2
      then obtain s1 m s2 where "cs = s1 @ m @ s2" "list_all2 atom_match as m"
        "at_boundary isw ((l @ [c]) @ s1) (m @ s2)"
        "at_boundary isw ((l @ [c]) @ s1 @ m) s2"
        using Cons.IH [of "l @ [c]"] by blast
      then show ?thesis by (intro exI [of _ "c # s1"] exI [of _ m] exI [of _ s2]) simp
    qed
  next
    assume ?R
    then obtain s1 m s2 where s: "c # cs = s1 @ m @ s2" "list_all2 atom_match as m"
      "at_boundary isw (l @ s1) (m @ s2)" "at_boundary isw (l @ s1 @ m) s2" by blast
    show ?L
    proof (cases s1)
      case Nil
      with s have "match_at isw as l (c # cs)" by (auto simp: match_at_iff)
      then show ?thesis by simp
    next
      case (Cons d s1')
      with s have "cs = s1' @ m @ s2" "d = c" by simp_all
      with s Cons have "search_from isw as (l @ [c]) cs"
        using Cons.IH [of "l @ [c]"] by auto
      then show ?thesis by simp
    qed
  qed
qed

text \<open>The scan of \<open>re.search\<close> finds exactly the occurrences of the pattern; for a
  literal word these are its whole-word occurrences.\<close>

lemma re_search_iff: "re_search isw as text \<longleftrightarrow> pattern_occurrence isw as text"
  by (simp add: re_search_def search_from_iff pattern_occurrence_def)

lemma compile_literal: "regex_literal w \<Longrightarrow> compile_word w = Inr (map Lit w)"
proof -
  assume "regex_literal w"
  then have "\<And>c. c \<in> set w \<Longrightarrow> compile_char c = Inr (Lit c)"
    by (auto simp: regex_literal_def list_all_iff compile_char_def regex_meta_def)
  then show ?thesis unfolding compile_word_def by (rule collect_map_Inr)
qed

lemma literal_match: "list_all2 atom_match (map Lit w) m \<longleftrightarrow> m = w"
proof (induction w arbitrary: m)
  case Nil
  then show ?case by simp
next
  case (Cons c w)
  then show ?case by (cases m) auto
qed

lemma pattern_literal:
  "pattern_occurrence isw (map Lit w) text \<longleftrightarrow> whole_word_occurrence isw w text"
  by (auto simp: pattern_occurrence_def whole_word_occurrence_def literal_match)

lemma whole_word_search:
  "whole_word_occurrence isw w text \<longleftrightarrow> re_search isw (map Lit w) text"
  by (simp add: re_search_iff pattern_literal)

text \<open>The two \<open>replace\<close> calls strip the part-of-speech suffix of a word that has
  neither \<open>_nn\<close> nor \<open>_vb\<close> before it, and leave a word without suffix as it is.\<close>

lemma str_remove_absent: "\<not> sublist old s \<Longrightarrow> str_remove old s = s"
proof (induction s)
  case Nil
  then show ?case by simp
next
  case (Cons c cs)
  then have "\<not> prefix old (c # cs)" "\<not> sublist old cs"
    by (auto simp: sublist_Cons_right)
  with Cons.IH show ?case by simp
qed

lemma no_straddle:
  assumes "c \<notin> set r" "\<not> prefix (c # r) (b # bs)"
  shows "\<not> prefix (c # r) (b # bs @ c # t)"
proof
  assume "prefix (c # r) (b # bs @ c # t)"
  then have bc: "b = c" and p: "prefix r (bs @ c # t)" by auto
  from p consider "prefix r bs" | us where "r = bs @ us" "prefix us (c # t)"
    by (auto simp: prefix_append)
  then show False
  proof cases
    case 1
    with bc assms(2) show False by simp
  next
    case 2
    show False
    proof (cases us)
      case Nil
      with 2 bc assms(2) show False by simp
    next
      case (Cons u us')
      with 2 have "u = c" by simp
      with 2 Cons assms(1) show False by simp
    qed
  qed
qed

lemma str_remove_suffix:
  assumes "c \<notin> set r" "\<not> sublist (c # r) base"
  shows "str_remove (c # r) (base @ c # r) = base"
  using assms(2)
proof (induction base)
  case Nil
  then show ?case by simp
next
  case (Cons b bs)
  then have n: "\<not> prefix (c # r) (b # bs)" "\<not> sublist (c # r) bs"
    by (auto simp: sublist_Cons_right)
  from no_straddle [OF assms(1) n(1)] have "\<not> prefix (c # r) (b # bs @ c # r)" .
  with Cons.IH [OF n(2)] show ?case by auto
qed

lemma str_remove_other_suffix:
  assumes "c \<notin> set r" "c \<notin> set r'" "r \<noteq> r'" "length r = length r'"
    and "\<not> sublist (c # r) base"
  shows "str_remove (c # r) (base @ c # r') = base @ c # r'"
  using assms(5)
proof (induction base)
  case Nil
  have "\<not> prefix r r'" using assms(3,4) by (auto simp: prefix_def)
  moreover have "\<not> sublist (c # r) r'"
    using assms(2) by (auto simp: sublist_def)
  ultimately show ?case by (simp add: str_remove_absent)
next
  case (Cons b bs)
  then have n: "\<not> prefix (c # r) (b # bs)" "\<not> sublist (c # r) bs"
    by (auto simp: sublist_Cons_right)
  from no_straddle [OF assms(1) n(1)] have "\<not> prefix (c # r) (b # bs @ c # r')" .
  with Cons.IH [OF n(2)] show ?case by auto
qed

lemma strip_pos_bare: "bare_form w base \<Longrightarrow> strip_pos w = base"
proof -
  assume b: "bare_form w base"
  then have n: "\<not> sublist ''_nn'' base" "\<not> sublist ''_vb'' base" by (simp_all add: bare_form_def)
  from b consider "w = base" | "w = base @ ''_nn''" | "w = base @ ''_vb''"
    by (auto simp: bare_form_def)
  then show ?thesis
  proof cases
    case 1
    with n show ?thesis by (simp add: strip_pos_def str_remove_absent)
  next
    case 2
    have "str_remove ''_vb'' (base @ ''_nn'') = base @ ''_nn''"
      using n(2) by (intro str_remove_other_suffix) simp_all
    moreover have "str_remove ''_nn'' (base @ ''_nn'') = base"
      using n(1) by (intro str_remove_suffix) simp_all
    ultimately show ?thesis using 2 by (simp add: strip_pos_def)
  next
    case 3
    have "str_remove ''_vb'' (base @ ''_vb'') = base"
      using n(2) by (intro str_remove_suffix) simp_all
    with 3 n(1) show ?thesis by (simp add: strip_pos_def str_remove_absent)
  qed
qed

subsection \<open>The occurrences that are kept\<close>

lemma slice_loop_all:
  "length es \<le> length txts \<Longrightarrow>
   slice_loop search False es txts (seen, E, T) =
     Inr (seen, E @ map fst (filter (\<lambda>occ. search (snd occ)) (zip es txts)),
          T @ map snd (filter (\<lambda>occ. search (snd occ)) (zip es txts)))"
proof (induction es arbitrary: txts E T)
  case Nil
  then show ?case by simp
next
  case (Cons e es)
  then obtain x xs where t: "txts = x # xs" by (cases txts) auto
  with Cons.prems have "length es \<le> length xs" by simp
  from Cons.IH [OF this] show ?case by (simp add: t)
qed

lemma slice_loop_first:
  "length es \<le> length txts \<Longrightarrow>
   \<exists>seen'. slice_loop search True es txts (seen, E, T) =
     Inr (seen',
          E @ map fst (first_by_text (filter (\<lambda>occ. search (snd occ) \<and> snd occ \<notin> set seen) (zip es txts))),
          T @ map snd (first_by_text (filter (\<lambda>occ. search (snd occ) \<and> snd occ \<notin> set seen) (zip es txts))))"
proof (induction es arbitrary: txts seen E T)
  case Nil
  then show ?case by simp
next
  case (Cons e es)
  then obtain x xs where t: "txts = x # xs" by (cases txts) auto
  with Cons.prems have len: "length es \<le> length xs" by simp
  show ?case
  proof (cases "search x \<and> x \<notin> set seen")
    case False
    with Cons.IH [OF len, of seen E T] show ?thesis by (auto simp: t)
  next
    case True
    have f: "(\<lambda>y. search (snd y) \<and> snd y \<notin> set seen \<and> snd y \<noteq> x)
           = (\<lambda>occ. search (snd occ) \<and> snd occ \<noteq> x \<and> snd occ \<notin> set seen)"
      by auto
    from Cons.IH [OF len, of "x # seen" "E @ [e]" "T @ [x]"] True show ?thesis
      by (simp add: t f)
  qed
qed

lemma slice_loop_short:
  "length txts < length es \<Longrightarrow> slice_loop search one es txts st = Inl IndexError"
proof (induction es arbitrary: txts st)
  case Nil
  then show ?case by simp
next
  case (Cons e es)
  show ?case
  proof (cases txts)
    case Nil
    then show ?thesis by simp
  next
    case (Cons x xs)
    with Cons.prems have "length xs < length es" by simp
    from Cons.IH [OF this] Cons show ?thesis by (cases st) auto
  qed
qed

lemma survives_compiled:
  "compile_word (strip_pos w) = Inr as \<Longrightarrow>
   survives env w = (\<lambda>occ. re_search (word_char env) as (snd occ))"
  by (auto simp: survives_def re_search_iff)

lemma select_occurrences_kept:
  assumes "compile_word (strip_pos w) = Inr as"
    and "length (t1 emb) \<le> length (t1_text emb)" "length (t2 emb) \<le> length (t2_text emb)"
  shows "select_occurrences env one w emb =
           Inr ((map fst (kept env one w (zip (t1 emb) (t1_text emb))),
                 map snd (kept env one w (zip (t1 emb) (t1_text emb)))),
                (map fst (kept env one w (zip (t2 emb) (t2_text emb))),
                 map snd (kept env one w (zip (t2 emb) (t2_text emb)))))"
proof (cases one)
  case False
  then show ?thesis using assms
    by (simp add: select_occurrences_def slice_loop_all kept_def survives_compiled)
next
  case True
  let ?s = "re_search (word_char env) as"
  from slice_loop_first [OF assms(2), of ?s "[]" "[]" "[]"] obtain s1 where
    1: "slice_loop ?s True (t1 emb) (t1_text emb) ([], [], []) =
          Inr (s1, map fst (first_by_text (filter (survives env w) (zip (t1 emb) (t1_text emb)))),
                   map snd (first_by_text (filter (survives env w) (zip (t1 emb) (t1_text emb)))))"
    by (auto simp: survives_compiled [OF assms(1)])
  from slice_loop_first [OF assms(3), of ?s "[]" "[]" "[]"] obtain s2 where
    2: "slice_loop ?s True (t2 emb) (t2_text emb) ([], [], []) =
          Inr (s2, map fst (first_by_text (filter (survives env w) (zip (t2 emb) (t2_text emb)))),
                   map snd (first_by_text (filter (survives env w) (zip (t2 emb) (t2_text emb)))))"
    by (auto simp: survives_compiled [OF assms(1)])
  show ?thesis using True by (simp add: select_occurrences_def assms(1) 1 2 kept_def)
qed

lemma select_occurrences_Inr:
  assumes "select_occurrences env one w emb = Inr res"
  obtains as where "compile_word (strip_pos w) = Inr as"
    "length (t1 emb) \<le> length (t1_text emb)" "length (t2 emb) \<le> length (t2_text emb)"
proof -
  from assms obtain as r1 r2 where c: "compile_word (strip_pos w) = Inr as"
    and 1: "slice_loop (re_search (word_char env) as) one (t1 emb) (t1_text emb) ([], [], []) = Inr r1"
    and 2: "slice_loop (re_search (word_char env) as) one (t2 emb) (t2_text emb) ([], [], []) = Inr r2"
    by (auto simp: select_occurrences_def and_then_eq_Inr)
  have "length (t1 emb) \<le> length (t1_text emb)"
    using 1 slice_loop_short [of "t1_text emb" "t1 emb" "re_search (word_char env) as" one "([], [], [])"]
    by (cases "length (t1 emb) \<le> length (t1_text emb)") auto
  moreover have "length (t2 emb) \<le> length (t2_text emb)"
    using 2 slice_loop_short [of "t2_text emb" "t2 emb" "re_search (word_char env) as" one "([], [], [])"]
    by (cases "length (t2 emb) \<le> length (t2_text emb)") auto
  ultimately show ?thesis using c by (rule that [rotated])
qed

lemma plane_eval:
  "select_occurrences ascii_libs False ''plane'' plane_record
     = Inr (([[1], [3]], [''a plane flew'', ''the plane landed'']), ([], []))"
  by code_simp

lemma plane_nn_eval:
  "select_occurrences ascii_libs False ''plane_nn'' plane_record
     = Inr (([[1], [3]], [''a plane flew'', ''the plane landed'']), ([], []))"
  by code_simp

lemma cell_eval:
  "select_occurrences ascii_libs False ''cell_nn'' cell_record
     = Inr (([[1], [2], [3], [5], [6]],
             [''the cell divides'', ''the cell divides'', ''a prison cell'', ''cell phone'',
              ''my cell'']),
            ([[7], [8], [9], [10]], [''cell tower'', ''one cell'', ''cell data'', ''a cell plan'']))"
  by code_simp

lemma cell_dedupe_eval:
  "select_occurrences ascii_libs True ''cell_nn'' cell_record
     = Inr (([[1], [3], [5], [6]],
             [''the cell divides'', ''a prison cell'', ''cell phone'', ''my cell'']),
            ([[7], [8], [9], [10]], [''cell tower'', ''one cell'', ''cell data'', ''a cell plan'']))"
  by code_simp

lemma dot_eval:
  "select_occurrences ascii_libs False ''c.t'' dot_record
     = Inr (([[1], [2]], [''a cat'', ''cut'']), ([], []))"
  by code_simp

lemma inner_eval:
  "select_occurrences ascii_libs False ''a_nnb'' inner_record
     = Inr (([[1]], [''ab'']), ([], []))"
  by code_simp

text \<open>The word is pasted into the pattern unescaped and \<open>_nn\<close>, \<open>_vb\<close> are removed
  wherever they stand: for the word \<open>c.t\<close> the filter keeps the sentences
  \<open>a cat\<close> and \<open>cut\<close>, and for the word \<open>a_nnb\<close> the sentence \<open>ab\<close>, none
  of which contains the word.\<close>

theorem filter_regex_counterexample:
  "select_occurrences ascii_libs False ''c.t'' dot_record
     = Inr (([[1], [2]], [''a cat'', ''cut'']), ([], []))
   \<and> t1_text dot_record = [''a cat'', ''cut'']
   \<and> \<not> whole_word_occurrence (word_char ascii_libs) ''c.t'' ''a cat''
   \<and> \<not> whole_word_occurrence (word_char ascii_libs) ''c.t'' ''cut''
   \<and> select_occurrences ascii_libs False ''a_nnb'' inner_record
     = Inr (([[1]], [''ab'']), ([], []))
   \<and> t1_text inner_record = [''ab'']
   \<and> \<not> whole_word_occurrence (word_char ascii_libs) ''a_nnb'' ''ab''"
proof -
  have "\<not> re_search (word_char ascii_libs) (map Lit ''c.t'') ''a cat''"
    "\<not> re_search (word_char ascii_libs) (map Lit ''c.t'') ''cut''"
    "\<not> re_search (word_char ascii_libs) (map Lit ''a_nnb'') ''ab''"
    by code_simp+
  moreover have "t1_text dot_record = [''a cat'', ''cut'']" "t1_text inner_record = [''ab'']"
    by (simp_all add: dot_record_def inner_record_def)
  ultimately show ?thesis
    by (simp add: whole_word_search dot_eval inner_eval)
qed

text \<open>
  Claim C5, amended. For a target word whose bare form (the word without its
  \<open>_nn\<close> or \<open>_vb\<close> suffix) has no character that is special in a regular
  expression and neither \<open>_nn\<close> nor \<open>_vb\<close> inside, with deduplication off, the
  occurrences of a time slice that the filter keeps are, in their order, exactly
  those whose sentence contains the bare form between two word boundaries. For the
  word \<open>plane_nn\<close> and the sentences \<open>a plane flew\<close>, \<open>airplane noise\<close>,
  \<open>the plane landed\<close>, the first and the third are kept, as shown after the
  theorem.
\<close>

theorem filter_retains_whole_word_matches:
  assumes "bare_form w base" "regex_literal base"
    and "length (t1 emb) \<le> length (t1_text emb)" "length (t2 emb) \<le> length (t2_text emb)"
  shows "select_occurrences env False w emb =
           Inr ((map fst (filter (\<lambda>occ. whole_word_occurrence (word_char env) base (snd occ))
                    (zip (t1 emb) (t1_text emb))),
                 map snd (filter (\<lambda>occ. whole_word_occurrence (word_char env) base (snd occ))
                    (zip (t1 emb) (t1_text emb)))),
                (map fst (filter (\<lambda>occ. whole_word_occurrence (word_char env) base (snd occ))
                    (zip (t2 emb) (t2_text emb))),
                 map snd (filter (\<lambda>occ. whole_word_occurrence (word_char env) base (snd occ))
                    (zip (t2 emb) (t2_text emb)))))"
proof -
  have c: "compile_word (strip_pos w) = Inr (map Lit base)"
    using assms(1,2) by (simp add: strip_pos_bare compile_literal)
  have sv: "survives env w = (\<lambda>occ. whole_word_occurrence (word_char env) base (snd occ))"
    by (simp add: survives_compiled [OF c] re_search_iff pattern_literal)
  have "kept env False w = filter (\<lambda>occ. whole_word_occurrence (word_char env) base (snd occ))"
    by (simp add: kept_def [abs_def] sv)
  with select_occurrences_kept [OF c assms(3,4), of env False] show ?thesis
    by simp
qed

theorem filter_retains_whole_word_matches_witness:
  "bare_form ''plane_nn'' ''plane'' \<and> regex_literal ''plane''
   \<and> t1_text plane_record = [''a plane flew'', ''airplane noise'', ''the plane landed'']
   \<and> map snd (filter (\<lambda>occ. whole_word_occurrence (word_char ascii_libs) ''plane'' (snd occ))
        (zip (t1 plane_record) (t1_text plane_record)))
     = [''a plane flew'', ''the plane landed'']"
proof -
  have b: "bare_form ''plane_nn'' ''plane''"
    by (simp add: bare_form_def sublist_code)
  have l: "regex_literal ''plane''" by code_simp
  have n: "length (t1 plane_record) \<le> length (t1_text plane_record)"
    "length (t2 plane_record) \<le> length (t2_text plane_record)"
    by (simp_all add: plane_record_def)
  from filter_retains_whole_word_matches [OF b l n, of ascii_libs]
  have "map snd (filter (\<lambda>occ. whole_word_occurrence (word_char ascii_libs) ''plane'' (snd occ))
        (zip (t1 plane_record) (t1_text plane_record)))
     = [''a plane flew'', ''the plane landed'']"
    unfolding plane_nn_eval by simp
  with b l show ?thesis by (simp add: plane_record_def)
qed

subsection \<open>The analysis of one word\<close>

lemma matrix_hd: "matrix X d \<Longrightarrow> length (hd X) = d"
  by (cases X) (simp_all add: matrix_def)

lemma np_array_matrix:
  assumes "matrix X d"
  shows "np_array X = Inr X"
proof -
  have "list_all (\<lambda>x. length x = d) X" using assms by (simp add: matrix_def)
  then show ?thesis unfolding np_array_def matrix_hd [OF assms] by simp
qed

lemma np_array_Inr: "np_array X = Inr Y \<Longrightarrow> Y = X"
  by (simp add: np_array_def split: if_splits)

lemma cosine_similarity_ok:
  "a \<noteq> [] \<Longrightarrow> length a = length b \<Longrightarrow> \<exists>c. cosine_similarity a b = Inr c"
  by (auto simp: cosine_similarity_def)

lemma length_np_mean_axis0 [simp]: "length (np_mean_axis0 X) = length (hd X)"
  by (simp add: np_mean_axis0_def)

lemma averaged_ok:
  assumes "matrix X d" "matrix Y d"
  shows "\<exists>v. compute_averaged_embedding_dist X Y = Inr v"
proof -
  have len: "length (np_mean_axis0 X) = d" "length (np_mean_axis0 Y) = d"
    using matrix_hd [OF assms(1)] matrix_hd [OF assms(2)] by simp_all
  have "0 < length (np_mean_axis0 X)" using len assms(1) by (simp add: matrix_def)
  then have "np_mean_axis0 X \<noteq> []" by (simp del: length_np_mean_axis0)
  moreover have "length (np_mean_axis0 X) = length (np_mean_axis0 Y)" using len by simp
  ultimately obtain c where "cosine_similarity (np_mean_axis0 X) (np_mean_axis0 Y) = Inr c"
    using cosine_similarity_ok by blast
  with assms show ?thesis
    by (auto simp: compute_averaged_embedding_dist_def matrix_def Let_def)
qed

lemma averaged_empty:
  "X = [] \<or> Y = [] \<Longrightarrow> compute_averaged_embedding_dist X Y = Inl ValueError"
  by (auto simp: compute_averaged_embedding_dist_def)

lemma averaged_Inr: "compute_averaged_embedding_dist X Y = Inr v \<Longrightarrow> X \<noteq> [] \<and> Y \<noteq> []"
  by (auto simp: compute_averaged_embedding_dist_def split: if_splits)

lemma np_concatenate_matrix: "matrix X d \<Longrightarrow> matrix Y d \<Longrightarrow> np_concatenate X Y = Inr (X @ Y)"
  using matrix_hd [of X d] matrix_hd [of Y d] by (simp add: np_concatenate_def matrix_def)

lemma np_concatenate_Inr: "np_concatenate X Y = Inr Z \<Longrightarrow> Z = X @ Y"
  by (simp add: np_concatenate_def split: if_splits)

lemma split_and_score_Inr:
  assumes "split_and_score fit e1 = Inr s"
  shows "\<exists>c. fit = Inr (labels s, c) \<and> centroids s = c
           \<and> clusters1 s = take (length e1) (labels s) \<and> clusters2 s = drop (length e1) (labels s)
           \<and> compute_divergence_from_cluster_labels (clusters1 s) (clusters2 s) = Inr (jsd s)"
  using assms by (auto simp: split_and_score_def and_then_eq_Inr Let_def)

lemma split_and_score_ok:
  assumes "fit = Inr (l, c)" "length l = length e1 + n2" "e1 \<noteq> []" "0 < n2"
  shows "\<exists>s. split_and_score fit e1 = Inr s"
proof -
  have "take (length e1) l \<noteq> []" "drop (length e1) l \<noteq> []" using assms by auto
  then have "compute_divergence_from_cluster_labels (take (length e1) l) (drop (length e1) l)
      = Inr (JSD_spec (take (length e1) l) (drop (length e1) l))"
    unfolding compute_divergence_from_cluster_labels_def Let_def
    by (intro divergence_order_irrelevant) (simp_all flip: set_append)
  then show ?thesis using assms(1) by (simp add: split_and_score_def Let_def)
qed

lemma analyse_word_Inr:
  assumes "analyse_word env one w emb = Inr r"
  obtains e1 e2 where
    "select_occurrences env one w emb = Inr ((e1, texts1 r), (e2, texts2 r))"
    "embeddings_concat r = e1 @ e2" "e1 \<noteq> []" "e2 \<noteq> []"
    "split_and_score (AffinityPropagation env None (e1 @ e2)) e1 = Inr (aff r)"
    "split_and_score (KMeans env 5 (e1 @ e2)) e1 = Inr (km5 r)"
    "split_and_score (KMeans env 7 (e1 @ e2)) e1 = Inr (km7 r)"
proof -
  from assms obtain e1 x1 e2 x2 a1 a2 av pooled where
    sel: "select_occurrences env one w emb = Inr ((e1, x1), (e2, x2))"
    and a1: "np_array e1 = Inr a1" and a2: "np_array e2 = Inr a2"
    and av: "compute_averaged_embedding_dist a1 a2 = Inr av"
    and po: "np_concatenate a1 a2 = Inr pooled"
    and rest: "and_then (split_and_score (cluster_word_embeddings_aff_prop env pooled None) a1)
       (\<lambda>r_aff.
     and_then (split_and_score (cluster_word_embeddings_k_means env pooled 5) a1)
       (\<lambda>r_km5.
     and_then (split_and_score (cluster_word_embeddings_k_means env pooled 7) a1)
       (\<lambda>r_km7.
     Inr \<lparr>texts1 = x1, texts2 = x2, embeddings_concat = pooled, average_dist = av,
          n_senses = length (remdups (labels r_aff)),
          aff = r_aff, km5 = r_km5, km7 = r_km7\<rparr>))) = Inr r"
    unfolding analyse_word_def by (auto simp: and_then_eq_Inr)
  have e: "a1 = e1" "a2 = e2" "pooled = e1 @ e2"
    using np_array_Inr [OF a1] np_array_Inr [OF a2] np_concatenate_Inr [OF po] by simp_all
  from rest obtain ra r5 r7 where
    "split_and_score (cluster_word_embeddings_aff_prop env pooled None) a1 = Inr ra"
    "split_and_score (cluster_word_embeddings_k_means env pooled 5) a1 = Inr r5"
    "split_and_score (cluster_word_embeddings_k_means env pooled 7) a1 = Inr r7"
    "r = \<lparr>texts1 = x1, texts2 = x2, embeddings_concat = pooled, average_dist = av,
          n_senses = length (remdups (labels ra)),
          aff = ra, km5 = r5, km7 = r7\<rparr>"
    by (auto simp: and_then_eq_Inr)
  then show ?thesis
    using sel averaged_Inr [OF av] e
    by (intro that [of e1 e2])
       (simp_all add: cluster_word_embeddings_aff_prop_def cluster_word_embeddings_k_means_def)
qed

text \<open>The analysis returns when both slices keep occurrences of one dimension and
  the clustering calls return.\<close>

lemma analyse_word_ok:
  assumes "select_occurrences env one w emb = Inr ((e1, x1), (e2, x2))"
    and "matrix e1 d" "matrix e2 d" "fits env (e1 @ e2)"
  shows "\<exists>r. analyse_word env one w emb = Inr r"
proof -
  from averaged_ok [OF assms(2,3)] obtain av where
    av: "compute_averaged_embedding_dist e1 e2 = Inr av" by blast
  have ne: "e1 \<noteq> []" "0 < length e2" using assms(2,3) by (simp_all add: matrix_def)
  from assms(4) obtain la ca l5 c5 l7 c7 where
    f: "AffinityPropagation env None (e1 @ e2) = Inr (la, ca)" "length la = length e1 + length e2"
       "KMeans env 5 (e1 @ e2) = Inr (l5, c5)" "length l5 = length e1 + length e2"
       "KMeans env 7 (e1 @ e2) = Inr (l7, c7)" "length l7 = length e1 + length e2"
    by (auto simp: fits_def)
  from split_and_score_ok [OF f(1,2) ne] split_and_score_ok [OF f(3,4) ne]
    split_and_score_ok [OF f(5,6) ne]
  obtain sa s5 s7 where
    "split_and_score (AffinityPropagation env None (e1 @ e2)) e1 = Inr sa"
    "split_and_score (KMeans env 5 (e1 @ e2)) e1 = Inr s5"
    "split_and_score (KMeans env 7 (e1 @ e2)) e1 = Inr s7" by blast
  then show ?thesis
    unfolding analyse_word_def
    by (simp add: assms(1) np_array_matrix [OF assms(2)] np_array_matrix [OF assms(3)] av
        np_concatenate_matrix [OF assms(2,3)]
        cluster_word_embeddings_aff_prop_def cluster_word_embeddings_k_means_def)
qed

lemma fits_ascii: "7 \<le> length X \<Longrightarrow> fits ascii_libs X"
  by (simp add: fits_def ascii_libs_def)


lemma cell_analysis: "\<exists>r. analyse_word ascii_libs False ''cell_nn'' cell_record = Inr r"
  by (rule analyse_word_ok [OF cell_eval, of 1]) (simp_all add: matrix_def fits_ascii)

lemma cell_dedupe_analysis: "\<exists>r. analyse_word ascii_libs True ''cell_nn'' cell_record = Inr r"
  by (rule analyse_word_ok [OF cell_dedupe_eval, of 1]) (simp_all add: matrix_def fits_ascii)



text \<open>
  Claim C6 (the source does otherwise). The analysis of a word never hands a
  preference to the affinity propagation: whatever the library does when given one,
  the fixed value \<open>aff_prop_pref\<close> included, the result of the analysis is the same,
  that of the constructor's default.
\<close>

theorem aff_prop_called_without_preference:
  "analyse_word
     (env\<lparr>AffinityPropagation :=
            \<lambda>pref. case pref of None \<Rightarrow> AffinityPropagation env None | Some p \<Rightarrow> other p\<rparr>)
     one w emb
   = analyse_word env one w emb"
  by (simp add: analyse_word_def select_occurrences_def cluster_word_embeddings_aff_prop_def
      cluster_word_embeddings_k_means_def)

subsection \<open>The mean pairwise distance\<close>

lemma compute_mean_dist_returns_PyNone:
  "compute_mean_dist X Y = Inr (v, ret) \<Longrightarrow> ret = PyNone"
  by (auto simp: compute_mean_dist_def and_then_eq_Inr)

text \<open>What \<open>compute_mean_dist\<close> prints is the average of the cosine distance over
  all pairs of a row of the first and a row of the second array.\<close>

lemma compute_mean_dist_prints_average:
  assumes "matrix X d" "matrix Y d"
  shows "compute_mean_dist X Y =
           Inr ((\<Sum>x\<leftarrow>X. \<Sum>y\<leftarrow>Y. cosine_distance x y) / (real (length X) * real (length Y)), PyNone)"
proof -
  have cs: "cosine_similarity x y = Inr (dot (unit_row x) (unit_row y))"
    if "x \<in> set X" "y \<in> set Y" for x y
    using assms that by (auto simp: cosine_similarity_def matrix_def list_all_iff)
  have inner: "and_then (collect (map (\<lambda>y. and_then (cosine_similarity x y) (\<lambda>c. Inr (1.0 - c))) Y)) np_mean
       = Inr ((\<Sum>y\<leftarrow>Y. cosine_distance x y) / real (length Y))" if "x \<in> set X" for x
  proof -
    have "collect (map (\<lambda>y. and_then (cosine_similarity x y) (\<lambda>c. Inr (1.0 - c))) Y)
        = Inr (map (cosine_distance x) Y)"
      by (rule collect_map_Inr) (simp add: cs [OF that] cosine_distance_def)
    then show ?thesis using assms(2) by (simp add: np_mean_def matrix_def)
  qed
  have "collect (map (\<lambda>x. and_then (collect (map (\<lambda>y. and_then (cosine_similarity x y) (\<lambda>c. Inr (1.0 - c))) Y)) np_mean) X)
      = Inr (map (\<lambda>x. (\<Sum>y\<leftarrow>Y. cosine_distance x y) / real (length Y)) X)"
    by (rule collect_map_Inr) (rule inner)
  moreover have "(\<Sum>x\<leftarrow>X. (\<Sum>y\<leftarrow>Y. cosine_distance x y) / real (length Y)) / real (length X)
      = (\<Sum>x\<leftarrow>X. \<Sum>y\<leftarrow>Y. cosine_distance x y) / (real (length X) * real (length Y))"
    using sum_list_divide [of "real (length Y)" "map (\<lambda>x. \<Sum>y\<leftarrow>Y. cosine_distance x y) X"]
    by (simp add: comp_def)
  ultimately show ?thesis
    using assms(1) by (simp add: compute_mean_dist_def np_mean_def matrix_def)
qed

theorem compute_mean_dist_prints_average_witness:
  "matrix [[1, 0], [0, 1]] 2 \<and> matrix [[1, 0]] 2
   \<and> compute_mean_dist [[1, 0], [0, 1]] [[1, 0]] = Inr (1 / 2, PyNone)"
proof -
  have m: "matrix [[1, 0], [0, 1]] 2" "matrix [[1, 0]] 2" by (simp_all add: matrix_def)
  from compute_mean_dist_prints_average [OF m] m show ?thesis
    by (simp add: cosine_distance_def unit_row_def dot_def)
qed

text \<open>
  Claim C7 (the source does otherwise). On the rows \<open>[1, 0]\<close> and \<open>[0, 1]\<close>, whose
  cosine distance is 1, \<open>compute_mean_dist\<close> prints 1 and returns \<open>None\<close>, not the
  float.
\<close>

theorem compute_mean_dist_returns_nothing:
  "compute_mean_dist [[1, 0]] [[0, 1]] = Inr (1, PyNone)"
  by (simp add: compute_mean_dist_def cosine_similarity_def unit_row_def dot_def np_mean_def)

subsection \<open>The files after each word\<close>

lemma DataFrame_aligned: "aligned d \<Longrightarrow> DataFrame_from_dict d = Inr (rows_of d)"
  by (simp add: DataFrame_from_dict_def aligned_def rows_of_def)

lemma DataFrame_Inr: "DataFrame_from_dict d = Inr rows \<Longrightarrow> aligned d \<and> rows = rows_of d"
  by (auto simp: DataFrame_from_dict_def aligned_def rows_of_def Let_def split: if_splits)

lemma aligned_initial: "aligned (results_dict (initial_state fs))"
  by (simp add: aligned_def initial_state_def)

lemma words_record_word [simp]:
  "word (results_dict (record_word st w r)) = word (results_dict st) @ [w]"
  by (simp add: record_word_def)

lemma aligned_record_word:
  "aligned (results_dict (record_word st w r)) \<longleftrightarrow> aligned (results_dict st)"
  by (auto simp: aligned_def record_word_def)

lemma map_row_word_rows: "aligned d \<Longrightarrow> map row_word (rows_of d) = word d"
  by (simp add: rows_of_def aligned_def row_word_def [abs_def])

lemma descending_sort: "descending (sort_values_desc rows)"
proof -
  have "sorted (map (\<lambda>r. - row_aff_prop r) (sort_key (\<lambda>r. - row_aff_prop r) rows))"
    by (rule sorted_sort_key)
  then show ?thesis
    by (simp add: descending_def sort_values_desc_def sorted_wrt_map)
qed

lemma mset_sort_values [simp]: "mset (sort_values_desc rows) = mset rows"
  by (simp add: sort_values_desc_def)

lemma csv_not_pkl [simp]: "csv_file a \<noteq> pkl_file a (CHR ''a'' # n)" "csv_file a \<noteq> pkl_file a (CHR ''k'' # n)"
  "csv_file a \<noteq> sents_file a"
  by (simp_all add: csv_file_def pkl_file_def sents_file_def)

lemma save_results_Inr:
  assumes "save_results a st = Inr st'"
  shows "aligned (results_dict st)"
    and "files st' (csv_file a) = Some (Table (sort_values_desc (rows_of (results_dict st))))"
    and "files st' (sents_file a) = Some (Sentences (sentence_dict st))"
    and "results_dict st' = results_dict st"
proof -
  from assms obtain rows where r: "DataFrame_from_dict (results_dict st) = Inr rows"
    by (auto simp: save_results_def and_then_eq_Inr)
  note d = DataFrame_Inr [OF r]
  from d show "aligned (results_dict st)" by simp
  from assms r d show "files st' (csv_file a) = Some (Table (sort_values_desc (rows_of (results_dict st))))"
    by (auto simp: save_results_def Let_def)
  from assms r show "files st' (sents_file a) = Some (Sentences (sentence_dict st))"
    by (auto simp: save_results_def Let_def)
  from assms r show "results_dict st' = results_dict st"
    by (auto simp: save_results_def Let_def)
qed

lemma save_results_ok: "aligned (results_dict st) \<Longrightarrow> \<exists>st'. save_results a st = Inr st'"
  by (simp add: save_results_def DataFrame_aligned Let_def)

lemma iteration_Inr:
  assumes "iteration env a st (w, emb) = Inr st'"
  obtains r where "analyse_word env (one_embedding_per_sentence a) w emb = Inr r"
    "save_results a (record_word st w r) = Inr st'"
  using assms by (auto simp: iteration_def and_then_eq_Inr)

lemma iteration_ok:
  assumes "analyse_word env (one_embedding_per_sentence a) w emb = Inr r"
    "aligned (results_dict st)"
  shows "\<exists>st'. iteration env a st (w, emb) = Inr st'"
  using assms save_results_ok [of "record_word st w r" a]
  by (simp add: iteration_def aligned_record_word)

lemma analyse_word_score:
  assumes "analyse_word env one w emb = Inr r"
  shows "exemplar_score env one (w, emb) = Inr (jsd (aff r))"
proof -
  from analyse_word_Inr [OF assms] obtain e1 e2 where
    sel: "select_occurrences env one w emb = Inr ((e1, texts1 r), (e2, texts2 r))"
    and sc: "split_and_score (AffinityPropagation env None (e1 @ e2)) e1 = Inr (aff r)" by blast
  from split_and_score_Inr [OF sc] obtain c where
    "AffinityPropagation env None (e1 @ e2) = Inr (labels (aff r), c)"
    "clusters1 (aff r) = take (length e1) (labels (aff r))"
    "clusters2 (aff r) = drop (length e1) (labels (aff r))"
    "compute_divergence_from_cluster_labels (clusters1 (aff r)) (clusters2 (aff r)) = Inr (jsd (aff r))"
    by blast
  then show ?thesis by (simp add: exemplar_score_def sel)
qed

lemma rows_of_record_word:
  assumes "aligned (results_dict st)"
  shows "rows_of (results_dict (record_word st w r)) =
           rows_of (results_dict st)
           @ [(w, jsd (aff r), jsd (km5 r), jsd (km7 r), average_dist r, n_senses r)]"
  using assms by (simp add: rows_of_def record_word_def aligned_def)

lemma iteration_table:
  assumes "iteration env a st item = Inr st'"
  shows "aligned (results_dict st')" "table_written a st'"
    "word (results_dict st') = word (results_dict st) @ [fst item]"
    "map row_key (rows_of (results_dict st')) =
       map row_key (rows_of (results_dict st)) @ [scored env a item]"
proof -
  obtain w emb where item: "item = (w, emb)" by (cases item)
  from iteration_Inr [OF assms [unfolded item]] obtain r where
    r: "analyse_word env (one_embedding_per_sentence a) w emb = Inr r"
    and s: "save_results a (record_word st w r) = Inr st'" by blast
  note S = save_results_Inr [OF s]
  show "aligned (results_dict st')" using S(1,4) by simp
  show "table_written a st'"
    unfolding table_written_def using S(2,4) descending_sort by auto
  show "word (results_dict st') = word (results_dict st) @ [fst item]"
    using S(4) by (simp add: item)
  have al: "aligned (results_dict st)" using S(1) by (simp add: aligned_record_word)
  show "map row_key (rows_of (results_dict st')) =
       map row_key (rows_of (results_dict st)) @ [scored env a item]"
    using S(4) analyse_word_score [OF r]
    by (simp add: rows_of_record_word [OF al] item scored_def row_key_def row_word_def
        row_aff_prop_def)
qed

lemma run_progress:
  assumes "run env a st0 items = (st, err)"
  shows "\<exists>n\<le>length items. (err = None \<longrightarrow> n = length items)
           \<and> (if n = 0 then st = st0
               else table_written a st
                 \<and> word (results_dict st) = word (results_dict st0) @ map fst (take n items)
                 \<and> map row_key (rows_of (results_dict st)) =
                     map row_key (rows_of (results_dict st0)) @ map (scored env a) (take n items))"
  using assms
proof (induction items arbitrary: st0)
  case Nil
  then show ?case by simp
next
  case (Cons item items)
  show ?case
  proof (cases "iteration env a st0 item")
    case (Inl e)
    with Cons.prems show ?thesis by (intro exI [of _ 0]) auto
  next
    case (Inr st1)
    note T = iteration_table [OF Inr]
    from Cons.prems Inr have "run env a st1 items = (st, err)" by simp
    from Cons.IH [OF this] obtain n where
      n: "n \<le> length items" "err = None \<longrightarrow> n = length items"
        "if n = 0 then st = st1
         else table_written a st
           \<and> word (results_dict st) = word (results_dict st1) @ map fst (take n items)
           \<and> map row_key (rows_of (results_dict st)) =
               map row_key (rows_of (results_dict st1)) @ map (scored env a) (take n items)"
      by blast
    show ?thesis
    proof (intro exI [of _ "Suc n"] conjI)
      show "Suc n \<le> length (item # items)" using n(1) by simp
      show "err = None \<longrightarrow> Suc n = length (item # items)" using n(2) by simp
      show "if Suc n = 0 then st = st0
            else table_written a st
              \<and> word (results_dict st) = word (results_dict st0) @ map fst (take (Suc n) (item # items))
              \<and> map row_key (rows_of (results_dict st)) =
                  map row_key (rows_of (results_dict st0)) @ map (scored env a) (take (Suc n) (item # items))"
        using n(3) T(2,3,4) by (cases "n = 0") simp_all
    qed
  qed
qed

lemma run_append:
  "run env a st (xs @ ys) =
     (case run env a st xs of (st', None) \<Rightarrow> run env a st' ys | (st', Some e) \<Rightarrow> (st', Some e))"
  by (induction xs arbitrary: st) (auto split: sum.splits)

text \<open>
  Claim C8. One embedding per sentence is off by default. When it is on, a
  completed iteration has kept, of each time slice, the first of the occurrences that
  pass the filter for each sentence text: the pooled embeddings are those of the
  occurrences kept, and the sentence file holds their texts for the word.
\<close>

theorem dedupe_keeps_first_occurrence_per_sentence:
  assumes "one_embedding_per_sentence a" and "iteration env a st (w, emb) = Inr st'"
  shows "\<not> one_embedding_per_sentence default_args
     \<and> (\<exists>r. analyse_word env True w emb = Inr r
          \<and> embeddings_concat r =
              map fst (first_by_text (filter (survives env w) (zip (t1 emb) (t1_text emb))))
              @ map fst (first_by_text (filter (survives env w) (zip (t2 emb) (t2_text emb))))
          \<and> files st' (sents_file a) =
              Some (Sentences ((sentence_dict st)(w \<mapsto>
                (map snd (first_by_text (filter (survives env w) (zip (t1 emb) (t1_text emb)))),
                 map snd (first_by_text (filter (survives env w) (zip (t2 emb) (t2_text emb)))))))))"
proof -
  from iteration_Inr [OF assms(2)] assms(1) obtain r where
    r: "analyse_word env True w emb = Inr r"
    and s: "save_results a (record_word st w r) = Inr st'" by auto
  from analyse_word_Inr [OF r] obtain e1 e2 where
    sel: "select_occurrences env True w emb = Inr ((e1, texts1 r), (e2, texts2 r))"
    and po: "embeddings_concat r = e1 @ e2" by blast
  from select_occurrences_Inr [OF sel] obtain as where
    L: "compile_word (strip_pos w) = Inr as"
    "length (t1 emb) \<le> length (t1_text emb)" "length (t2 emb) \<le> length (t2_text emb)" by blast
  from select_occurrences_kept [OF L, of env True] sel
  have k: "e1 = map fst (first_by_text (filter (survives env w) (zip (t1 emb) (t1_text emb))))"
    "texts1 r = map snd (first_by_text (filter (survives env w) (zip (t1 emb) (t1_text emb))))"
    "e2 = map fst (first_by_text (filter (survives env w) (zip (t2 emb) (t2_text emb))))"
    "texts2 r = map snd (first_by_text (filter (survives env w) (zip (t2 emb) (t2_text emb))))"
    by (simp_all add: kept_def)
  have "files st' (sents_file a) = Some (Sentences (sentence_dict (record_word st w r)))"
    using save_results_Inr(3) [OF s] .
  moreover have "sentence_dict (record_word st w r) = (sentence_dict st)(w \<mapsto> (texts1 r, texts2 r))"
    by (simp add: record_word_def)
  ultimately show ?thesis using r po k by (simp add: default_args_def)
qed

theorem dedupe_keeps_first_occurrence_per_sentence_witness:
  "\<exists>st' r. iteration ascii_libs dedupe_args (initial_state Map.empty) (''cell_nn'', cell_record) = Inr st'
     \<and> analyse_word ascii_libs True ''cell_nn'' cell_record = Inr r
     \<and> embeddings_concat r = [[1], [3], [5], [6], [7], [8], [9], [10]]
     \<and> files st' ''semeval_results/sents_english.pkl'' =
         Some (Sentences [''cell_nn'' \<mapsto>
           ([''the cell divides'', ''a prison cell'', ''cell phone'', ''my cell''],
            [''cell tower'', ''one cell'', ''cell data'', ''a cell plan''])])"
proof -
  have o: "one_embedding_per_sentence dedupe_args" by (simp add: dedupe_args_def)
  from cell_dedupe_analysis obtain r0 where
    "analyse_word ascii_libs (one_embedding_per_sentence dedupe_args) ''cell_nn'' cell_record = Inr r0"
    by (auto simp: dedupe_args_def)
  from iteration_ok [OF this aligned_initial] obtain st' where
    i: "iteration ascii_libs dedupe_args (initial_state Map.empty) (''cell_nn'', cell_record) = Inr st'"
    by blast
  have l: "compile_word (strip_pos ''cell_nn'') = Inr (map Lit ''cell'')" by code_simp
  from select_occurrences_kept [OF l, of cell_record ascii_libs True] cell_dedupe_eval
  have k: "map fst (first_by_text (filter (survives ascii_libs ''cell_nn'') (zip (t1 cell_record) (t1_text cell_record))))
      = [[1], [3], [5], [6]]"
    "map snd (first_by_text (filter (survives ascii_libs ''cell_nn'') (zip (t1 cell_record) (t1_text cell_record))))
      = [''the cell divides'', ''a prison cell'', ''cell phone'', ''my cell'']"
    "map fst (first_by_text (filter (survives ascii_libs ''cell_nn'') (zip (t2 cell_record) (t2_text cell_record))))
      = [[7], [8], [9], [10]]"
    "map snd (first_by_text (filter (survives ascii_libs ''cell_nn'') (zip (t2 cell_record) (t2_text cell_record))))
      = [''cell tower'', ''one cell'', ''cell data'', ''a cell plan'']"
    by (simp_all add: kept_def cell_record_def)
  from dedupe_keeps_first_occurrence_per_sentence [OF o i] i show ?thesis
    unfolding k
    by (auto simp: sents_file_def dedupe_args_def default_args_def initial_state_def)
qed

lemma stay_eval:
  "select_occurrences threshold_libs False ''stay_vb'' stay_record
     = Inr (([[1], [2], [6], [7]], [''we stay'', ''stay here'', ''to stay on'', ''stay put'']),
            ([[3], [4], [8], [9]], [''they stay'', ''stay there'', ''a stay of'', ''stay in'']))"
  by code_simp

lemma move_eval:
  "select_occurrences threshold_libs False ''move_vb'' move_record
     = Inr (([[1], [2], [3], [4]], [''we move'', ''move here'', ''to move on'', ''move out'']),
            ([[6], [7], [8], [9]], [''they move'', ''move there'', ''a move of'', ''move in'']))"
  by code_simp

lemma fits_threshold: "7 \<le> length X \<Longrightarrow> fits threshold_libs X"
  by (simp add: fits_def threshold_libs_def)

lemma divergence_same: "xs \<noteq> [] \<Longrightarrow> compute_divergence_from_cluster_labels xs xs = Inr 0"
proof -
  assume n: "xs \<noteq> []"
  have "JSD_spec xs xs = 0" by (simp add: JSD_spec_def KL_def Let_def)
  moreover have "compute_divergence_from_cluster_labels xs xs = Inr (JSD_spec xs xs)"
    unfolding compute_divergence_from_cluster_labels_def Let_def
    using n by (intro divergence_order_irrelevant) simp_all
  ultimately show ?thesis by simp
qed

lemma divergence_disjoint:
  "compute_divergence_from_cluster_labels [0, 0, 0, 0] [1, 1, 1, 1] = Inr (ln 2)"
proof -
  have "JSD_spec [0, 0, 0, 0] [1, 1, 1, 1] = ln 2"
    by (simp add: JSD_spec_def KL_def Let_def label_freq_def kl_term_def)
  moreover have "compute_divergence_from_cluster_labels [0, 0, 0, 0] [1, 1, 1, 1]
      = Inr (JSD_spec [0, 0, 0, 0] [1, 1, 1, 1])"
    unfolding compute_divergence_from_cluster_labels_def Let_def
    by (intro divergence_order_irrelevant) auto
  ultimately show ?thesis by simp
qed

lemma threshold_fit:
  "AffinityPropagation threshold_libs pref X = Inr (map (\<lambda>x. if hd x < 5 then 0 else 1) X, [hd X])"
  by (simp add: threshold_libs_def)

lemma stay_score: "scored threshold_libs default_args (''stay_vb'', stay_record) = (''stay_vb'', Inr 0)"
  by (simp add: scored_def exemplar_score_def default_args_def stay_eval threshold_fit
      divergence_same)

lemma move_score:
  "scored threshold_libs default_args (''move_vb'', move_record) = (''move_vb'', Inr (ln 2))"
  by (simp add: scored_def exemplar_score_def default_args_def move_eval threshold_fit
      divergence_disjoint)

lemma two_rows_descending:
  assumes "mset (map row_key rows) = mset [(u, Inr x), (v, Inr y)]" "descending rows" "x < y"
  shows "map row_key rows = [(v, Inr y), (u, Inr x)]"
proof -
  from assms(1) have "length rows = 2"
    by (metis length_map size_mset length_Cons list.size(3) One_nat_def Suc_1)
  then obtain r s where rows: "rows = [r, s]"
    by (cases rows; cases "tl rows") auto
  from assms(1) rows consider "row_key r = (u, Inr x)" "row_key s = (v, Inr y)"
    | "row_key r = (v, Inr y)" "row_key s = (u, Inr x)"
    by (auto simp: add_eq_conv_ex)
  then show ?thesis
  proof cases
    case 1
    then have "row_aff_prop r = x" "row_aff_prop s = y" by (simp_all add: row_key_def)
    with assms(2,3) rows show ?thesis by (simp add: descending_def)
  next
    case 2
    with rows show ?thesis by simp
  qed
qed

text \<open>
  Claim C9. Whatever the output directory held at the start, after the \<open>n\<close> words
  processed so far (all of them when the run is complete, those before the exception
  otherwise) the table on disk is what the last word left: it has exactly one row
  for each of the \<open>n\<close> words, the row of a word carrying the exemplar-based
  divergence score of that word, and its rows are in descending order of that score.
  Nothing of an earlier table remains. (The run after it processes \<open>stay_vb\<close>, of
  score 0, then \<open>move_vb\<close>, of score \<open>ln 2\<close>, in a directory that holds a table:
  the table then lists \<open>move_vb\<close> before \<open>stay_vb\<close> and nothing else.)
\<close>

theorem results_table_rewritten_sorted:
  assumes "run env a (initial_state fs) items = (st, err)"
  shows "\<exists>n\<le>length items. (err = None \<longrightarrow> n = length items)
           \<and> word (results_dict st) = map fst (take n items)
           \<and> (0 < n \<longrightarrow>
                (\<exists>rows. files st (csv_file a) = Some (Table rows) \<and> descending rows
                   \<and> mset (map row_key rows) = mset (map (scored env a) (take n items))))"
proof -
  from run_progress [OF assms] obtain n where
    n: "n \<le> length items" "err = None \<longrightarrow> n = length items"
      "if n = 0 then st = initial_state fs
       else table_written a st
         \<and> word (results_dict st) = word (results_dict (initial_state fs)) @ map fst (take n items)
         \<and> map row_key (rows_of (results_dict st)) =
             map row_key (rows_of (results_dict (initial_state fs))) @ map (scored env a) (take n items)"
    by blast
  have i: "word (results_dict (initial_state fs)) = []" "rows_of (results_dict (initial_state fs)) = []"
    by (simp_all add: initial_state_def rows_of_def)
  show ?thesis
  proof (intro exI [of _ n] conjI impI)
    show "n \<le> length items" by (rule n(1))
    show "n = length items" if "err = None" using n(2) that by simp
    show "word (results_dict st) = map fst (take n items)"
      using n(3) i by (cases "n = 0") simp_all
    show "\<exists>rows. files st (csv_file a) = Some (Table rows) \<and> descending rows
                   \<and> mset (map row_key rows) = mset (map (scored env a) (take n items))"
      if "0 < n"
    proof -
      from n(3) that i obtain rows where
        rows: "files st (csv_file a) = Some (Table rows)" "descending rows"
        "mset rows = mset (rows_of (results_dict st))"
        and k: "map row_key (rows_of (results_dict st)) = map (scored env a) (take n items)"
        by (auto simp: table_written_def)
      have "mset (map row_key rows) = image_mset row_key (mset (rows_of (results_dict st)))"
        using rows(3) by (simp flip: rows(3))
      also have "\<dots> = mset (map row_key (rows_of (results_dict st)))" by simp
      finally show ?thesis using rows(1,2) k by auto
    qed
  qed
qed

theorem results_table_rewritten_sorted_witness:
  "\<exists>st rows. run threshold_libs default_args (initial_state stale_files)
                [(''stay_vb'', stay_record), (''move_vb'', move_record)] = (st, None)
     \<and> stale_files ''semeval_results/results_english.csv'' = Some (Table [(''old'', 5, 5, 5, 5, 1)])
     \<and> files st ''semeval_results/results_english.csv'' = Some (Table rows)
     \<and> map row_key rows = [(''move_vb'', Inr (ln 2)), (''stay_vb'', Inr 0)]"
proof -
  let ?a = default_args and ?L = threshold_libs
  have "\<exists>r. analyse_word ?L (one_embedding_per_sentence ?a) ''stay_vb'' stay_record = Inr r"
    unfolding default_args_def
    by (simp, rule analyse_word_ok [OF stay_eval, of 1]) (simp_all add: matrix_def fits_threshold)
  then obtain r1 where
    "analyse_word ?L (one_embedding_per_sentence ?a) ''stay_vb'' stay_record = Inr r1" by blast
  from iteration_ok [OF this aligned_initial] obtain st1 where
    1: "iteration ?L ?a (initial_state stale_files) (''stay_vb'', stay_record) = Inr st1" by blast
  have "\<exists>r. analyse_word ?L (one_embedding_per_sentence ?a) ''move_vb'' move_record = Inr r"
    unfolding default_args_def
    by (simp, rule analyse_word_ok [OF move_eval, of 1]) (simp_all add: matrix_def fits_threshold)
  then obtain r2 where
    "analyse_word ?L (one_embedding_per_sentence ?a) ''move_vb'' move_record = Inr r2" by blast
  from iteration_ok [OF this iteration_table(1) [OF 1]] obtain st where
    2: "iteration ?L ?a st1 (''move_vb'', move_record) = Inr st" by blast
  have run: "run ?L ?a (initial_state stale_files)
      [(''stay_vb'', stay_record), (''move_vb'', move_record)] = (st, None)"
    by (simp add: 1 2)
  from results_table_rewritten_sorted [OF run] obtain rows where
    rows: "files st (csv_file ?a) = Some (Table rows)" "descending rows"
    "mset (map row_key rows) =
       mset (map (scored ?L ?a) [(''stay_vb'', stay_record), (''move_vb'', move_record)])"
    by auto
  from rows(3) have "mset (map row_key rows) = mset [(''stay_vb'', Inr 0), (''move_vb'', Inr (ln 2))]"
    by (simp add: stay_score move_score)
  from two_rows_descending [OF this rows(2)]
  have "map row_key rows = [(''move_vb'', Inr (ln 2)), (''stay_vb'', Inr 0)]" by simp
  with run rows(1) show ?thesis
    by (intro exI [of _ st] exI [of _ rows]) (simp add: csv_file_def default_args_def stale_files_def)
qed

subsection \<open>A slice without occurrences\<close>

text \<open>The run over a word whose second slice keeps no occurrence and a word that
  can be processed alone: the exception of the first ends the run, nothing is written
  and the second word is not reached.\<close>

theorem empty_slice_skipped_counterexample:
  "snd (run ascii_libs default_args (initial_state Map.empty) [(''cell_nn'', cell_record)]) = None
   \<and> run ascii_libs default_args (initial_state Map.empty)
        [(''plane_nn'', plane_record), (''cell_nn'', cell_record)]
      = (initial_state Map.empty, Some ValueError)"
proof -
  from cell_analysis obtain r where
    "analyse_word ascii_libs (one_embedding_per_sentence default_args) ''cell_nn'' cell_record = Inr r"
    by (auto simp: default_args_def)
  from iteration_ok [OF this aligned_initial] obtain st' where
    "iteration ascii_libs default_args (initial_state Map.empty) (''cell_nn'', cell_record) = Inr st'"
    by blast
  then have 1: "snd (run ascii_libs default_args (initial_state Map.empty) [(''cell_nn'', cell_record)]) = None"
    by simp
  have "compute_averaged_embedding_dist [[1], [3]] [] = Inl ValueError"
    by (simp add: averaged_empty)
  then have "analyse_word ascii_libs (one_embedding_per_sentence default_args) ''plane_nn'' plane_record
     = Inl ValueError"
    by (simp add: analyse_word_def default_args_def plane_nn_eval np_array_def)
  then have 2: "run ascii_libs default_args (initial_state Map.empty)
        [(''plane_nn'', plane_record), (''cell_nn'', cell_record)]
      = (initial_state Map.empty, Some ValueError)"
    by (simp add: iteration_def)
  from 1 2 show ?thesis by simp
qed

text \<open>
  Claim C3, amended. When the filter leaves a time slice of a word without
  occurrences, \<open>compute_averaged_embedding_dist\<close> raises \<open>ValueError\<close>; the loop
  catches nothing, so the run ends at that word with this exception: the state and
  the files stay as the words before it left them, and no later word is processed.
\<close>

theorem empty_slice_aborts_run:
  assumes "select_occurrences env (one_embedding_per_sentence a) w emb = Inr ((e1, x1), (e2, x2))"
    and "e1 = [] \<or> e2 = []" and "np_array e1 = Inr e1" "np_array e2 = Inr e2"
  shows "run env a st ((w, emb) # rest) = (st, Some ValueError)"
proof -
  have "compute_averaged_embedding_dist e1 e2 = Inl ValueError"
    using assms(2) by (rule averaged_empty)
  then have "analyse_word env (one_embedding_per_sentence a) w emb = Inl ValueError"
    by (simp add: analyse_word_def assms(1,3,4))
  then show ?thesis by (simp add: iteration_def)
qed

theorem empty_slice_aborts_run_witness:
  "run ascii_libs default_args (initial_state Map.empty)
     [(''plane_nn'', plane_record), (''cell_nn'', cell_record)]
   = (initial_state Map.empty, Some ValueError)"
  by (rule empty_slice_aborts_run [where ?e1.0 = "[[1], [3]]" and ?e2.0 = "[]"])
     (simp_all add: default_args_def plane_nn_eval np_array_def)

end
